theory Spec2Isabelle
  imports Main "HOL-Library.Word"
begin

section \<open>Errors\<close>

text \<open>
  The C sources have no error returns of their own: every failed \<^verbatim>\<open>assert\<close> aborts the
  program, and so does the graph library's default error handler when it is handed a vertex
  id that is out of range.  Both are values of the model.
\<close>

datatype error = AssertionFailed | GraphCorrupt

definition bind_res :: "error + 'a \<Rightarrow> ('a \<Rightarrow> error + 'b) \<Rightarrow> error + 'b" where
  "bind_res m f = (case m of Inl e \<Rightarrow> Inl e | Inr x \<Rightarrow> f x)"

definition assert_that :: "bool \<Rightarrow> error + unit" where
  "assert_that b = (if b then Inr () else Inl AssertionFailed)"

section \<open>Graph layer\<close>

text \<open>
  The graph library is not part of the repository; the engine uses it through the few
  operations below.  A graph is its number of vertices and its list of edges, in the order
  they were added; an undirected edge is stored as the pair it was added with.
\<close>

record igraph =
  vcount :: nat
  edgelist :: "(nat \<times> nat) list"

definition igraph_empty :: "nat \<Rightarrow> igraph" where
  "igraph_empty k = \<lparr>vcount = k, edgelist = []\<rparr>"

definition valid_edge :: "igraph \<Rightarrow> nat \<times> nat \<Rightarrow> bool" where
  "valid_edge g e = (fst e < vcount g \<and> snd e < vcount g)"

definition igraph_add_edges :: "igraph \<Rightarrow> (nat \<times> nat) list \<Rightarrow> error + igraph" where
  "igraph_add_edges g es =
     (if list_all (valid_edge g) es then Inr (g\<lparr>edgelist := edgelist g @ es\<rparr>)
      else Inl GraphCorrupt)"

definition igraph_add_edge :: "igraph \<Rightarrow> nat \<Rightarrow> nat \<Rightarrow> error + igraph" where
  "igraph_add_edge g u v = igraph_add_edges g [(u, v)]"

definition incident :: "nat \<Rightarrow> nat \<times> nat \<Rightarrow> bool" where
  "incident v e = (fst e = v \<or> snd e = v)"

text \<open>The other endpoints of the edges at \<open>v\<close>, one entry per edge end (a loop gives two).\<close>

definition adjacent_ends :: "igraph \<Rightarrow> nat \<Rightarrow> nat list" where
  "adjacent_ends g v =
     concat (map (\<lambda>e. (if fst e = v then [snd e] else []) @ (if snd e = v then [fst e] else []))
       (edgelist g))"

definition igraph_neighbors :: "igraph \<Rightarrow> nat \<Rightarrow> error + nat list" where
  "igraph_neighbors g v =
     (if v < vcount g then Inr (sort (adjacent_ends g v)) else Inl GraphCorrupt)"

text \<open>\<^verbatim>\<open>igraph_es_incident\<close> followed by \<^verbatim>\<open>igraph_es_size\<close>: the number of edge ends at \<open>v\<close>.\<close>

definition igraph_es_size_incident :: "igraph \<Rightarrow> nat \<Rightarrow> error + nat" where
  "igraph_es_size_incident g v =
     (if v < vcount g then Inr (length (adjacent_ends g v)) else Inl GraphCorrupt)"

text \<open>\<^verbatim>\<open>igraph_es_incident\<close> followed by \<^verbatim>\<open>igraph_delete_edges\<close>.\<close>

definition igraph_delete_incident :: "igraph \<Rightarrow> nat \<Rightarrow> error + igraph" where
  "igraph_delete_incident g v =
     (if v < vcount g then Inr (g\<lparr>edgelist := filter (\<lambda>e. \<not> incident v e) (edgelist g)\<rparr>)
      else Inl GraphCorrupt)"

definition endpoints :: "igraph \<Rightarrow> nat set" where
  "endpoints g = fst ` set (edgelist g) \<union> snd ` set (edgelist g)"

text \<open>
  The connected component is collected breadth first: \<open>queue\<close> holds the vertices still to
  expand, \<open>seen\<close> the vertices already added, in the order they were reached.
\<close>

function bfs :: "igraph \<Rightarrow> nat list \<Rightarrow> nat list \<Rightarrow> nat list" where
  "bfs g [] seen = seen"
| "bfs g (v # queue) seen =
     bfs g (queue @ remdups (filter (\<lambda>y. y \<notin> set seen) (adjacent_ends g v)))
           (seen @ remdups (filter (\<lambda>y. y \<notin> set seen) (adjacent_ends g v)))"
  by pat_completeness auto

lemma set_adjacent_ends:
  "set (adjacent_ends g v) = {u. (v, u) \<in> set (edgelist g) \<or> (u, v) \<in> set (edgelist g)}"
  by (auto simp: adjacent_ends_def split: if_splits)

lemma adjacent_ends_endpoints: "set (adjacent_ends g v) \<subseteq> endpoints g"
  by (force simp: set_adjacent_ends endpoints_def)

lemma finite_endpoints: "finite (endpoints g)"
  by (simp add: endpoints_def)

termination bfs
proof (relation "inv_image (less_than <*lex*> less_than)
                   (\<lambda>(g, queue, seen). (card (endpoints g - set seen), length queue))",
       goal_cases)
  case 1
  show ?case by (intro wf_inv_image wf_lex_prod wf_less_than)
next
  case (2 g v queue seen)
  define new where "new = remdups (filter (\<lambda>y. y \<notin> set seen) (adjacent_ends g v))"
  show ?case
  proof (cases "new = []")
    case True
    then show ?thesis by (simp add: new_def [symmetric])
  next
    case False
    then obtain y where y: "y \<in> set new" by (cases new) auto
    then have "y \<in> endpoints g - set seen"
      using adjacent_ends_endpoints [of g v] by (auto simp: new_def)
    moreover have "y \<notin> endpoints g - set (seen @ new)" using y by simp
    ultimately have "endpoints g - set (seen @ new) \<subset> endpoints g - set seen" by auto
    then have "card (endpoints g - set (seen @ new)) < card (endpoints g - set seen)"
      by (intro psubset_card_mono) (simp_all add: finite_endpoints)
    then show ?thesis by (simp add: new_def [symmetric])
  qed
qed

definition igraph_subcomponent :: "igraph \<Rightarrow> nat \<Rightarrow> error + nat list" where
  "igraph_subcomponent g v = (if v < vcount g then Inr (bfs g [v] [v]) else Inl GraphCorrupt)"

text \<open>On sorted vectors: the entries of the first vector that do not occur in the second.\<close>

definition igraph_vector_difference_sorted :: "nat list \<Rightarrow> nat list \<Rightarrow> nat list" where
  "igraph_vector_difference_sorted v1 v2 = filter (\<lambda>u. u \<notin> set v2) v1"


section \<open>State\<close>

text \<open>
  The struct \<^verbatim>\<open>state_s\<close>.  Its declaration is in a header that is not among the sources; the
  field types are those the sources allocate and read them with: the counters, the target
  character and the array cells are 32-bit unsigned, a colour is one byte, and the two lists
  hold the integers stored in their nodes.  The null list is the empty list; the matrix
  pointer may be null.
\<close>

type_synonym u32 = "32 word"

record state_s =
  realize :: u32
  tried_characters :: "u32 list"
  character_queue :: "u32 list"
  num_species :: u32
  num_characters :: u32
  num_species_orig :: u32
  num_characters_orig :: u32
  red_black :: igraph
  conflict :: igraph
  matrix :: "u32 list option"
  current_states :: "u32 list"
  species :: "u32 list"
  characters :: "u32 list"
  colors :: "8 word list"
  operation :: u32

text \<open>
  Modelled from the spec: the colour constants of the missing header.  The sources use
  the names \<^verbatim>\<open>BLACK\<close> and \<^verbatim>\<open>RED\<close> and write a removed character as \<^verbatim>\<open>RED + 1\<close>; the spec
  gives the three values as distinct.
\<close>

definition BLACK :: "8 word" where
  "BLACK = 1"

definition RED :: "8 word" where
  "RED = 2"

definition REMOVED :: "8 word" where
  "REMOVED = RED + 1"

text \<open>
  \<^verbatim>\<open>init_state\<close> overwrites every field of the struct it is given but the matrix pointer,
  which keeps whatever it held.
\<close>

definition init_state :: "state_s \<Rightarrow> u32 \<Rightarrow> u32 \<Rightarrow> state_s" where
  "init_state stp nspecies nchars =
     stp\<lparr>num_characters_orig := nchars,
         num_species_orig := nspecies,
         num_characters := nchars,
         num_species := nspecies,
         tried_characters := [],
         character_queue := [],
         realize := 0,
         red_black := igraph_empty (unat (nspecies + nchars)),
         conflict := igraph_empty (unat nchars),
         operation := 0,
         species := replicate (unat nspecies) 1,
         current_states := replicate (unat nchars) 0,
         characters := replicate (unat nchars) 1,
         colors := replicate (unat nchars) BLACK\<rparr>"

text \<open>The counting loops of \<^verbatim>\<open>check_state\<close>: a 32-bit counter over the first \<open>k\<close> cells.\<close>

definition count_cells :: "('a \<Rightarrow> bool) \<Rightarrow> 'a list \<Rightarrow> nat \<Rightarrow> u32" where
  "count_cells P xs k = fold (\<lambda>i count. if P (xs ! i) then count + 1 else count) [0..<k] 0"

definition check_state :: "state_s \<Rightarrow> u32" where
  "check_state stp =
     (if num_species stp = - 1 \<or> num_species stp > num_species_orig stp then 1 else 0)
   + (if num_characters stp = - 1 \<or> num_characters stp > num_characters_orig stp then 2 else 0)
   + (if count_cells (\<lambda>w. w \<noteq> 0) (species stp) (unat (num_species_orig stp)) \<noteq> num_species stp
      then 4 else 0)
   + (if count_cells (\<lambda>w. w \<noteq> 0) (characters stp) (unat (num_characters_orig stp))
           \<noteq> num_characters stp
      then 8 else 0)
   + (if count_cells (\<lambda>w. w \<noteq> - 1) (current_states stp) (unat (num_characters_orig stp))
           \<noteq> num_characters stp
      then 16 else 0)"

text \<open>\<^verbatim>\<open>state_cmp\<close>: the arrays are compared cell by cell up to the second state's sizes.\<close>

definition cells_differ :: "'a list \<Rightarrow> 'a list \<Rightarrow> nat \<Rightarrow> bool" where
  "cells_differ xs ys k = list_ex (\<lambda>i. xs ! i \<noteq> ys ! i) [0..<k]"

definition state_cmp :: "state_s \<Rightarrow> state_s \<Rightarrow> u32" where
  "state_cmp stp1 stp2 =
     (if num_characters stp1 \<noteq> num_characters stp2 then 1 else 0)
   + (if num_species stp1 \<noteq> num_species stp2 then 2 else 0)
   + (if num_characters_orig stp1 \<noteq> num_characters_orig stp2 then 4 else 0)
   + (if num_species_orig stp1 \<noteq> num_species_orig stp2 then 8 else 0)
   + (if cells_differ (current_states stp1) (current_states stp2) (unat (num_characters_orig stp2))
      then 16 else 0)
   + (if cells_differ (species stp1) (species stp2) (unat (num_species_orig stp2)) then 32 else 0)
   + (if cells_differ (characters stp1) (characters stp2) (unat (num_characters_orig stp2))
      then 64 else 0)"

definition delete_species :: "state_s \<Rightarrow> nat \<Rightarrow> error + state_s" where
  "delete_species stp s =
     (if \<not> s < unat (num_species_orig stp) then Inl AssertionFailed
      else if \<not> species stp ! s > 0 then Inl AssertionFailed
      else Inr (stp\<lparr>species := (species stp)[s := 0], num_species := num_species stp - 1\<rparr>))"

definition delete_character :: "state_s \<Rightarrow> nat \<Rightarrow> error + state_s" where
  "delete_character stp c =
     (if \<not> c < unat (num_characters_orig stp) then Inl AssertionFailed
      else if \<not> characters stp ! c > 0 then Inl AssertionFailed
      else if \<not> current_states stp ! c \<noteq> - 1 then Inl AssertionFailed
      else Inr (stp\<lparr>characters := (characters stp)[c := 0],
                    current_states := (current_states stp)[c := - 1],
                    num_characters := num_characters stp - 1\<rparr>))"

text \<open>The vertex of character \<open>c\<close> in the red-black graph.\<close>

definition char_vertex :: "state_s \<Rightarrow> u32 \<Rightarrow> nat" where
  "char_vertex stp c = unat (num_species_orig stp + c)"

text \<open>One iteration of each of the two loops of \<^verbatim>\<open>cleanup\<close>.\<close>

definition cleanup_species_step :: "nat \<Rightarrow> state_s \<Rightarrow> error + state_s" where
  "cleanup_species_step s stp =
     (if species stp ! s \<noteq> 0 then
        bind_res (igraph_es_size_incident (red_black stp) s) (\<lambda>size.
          if size = 0 then delete_species stp s else Inr stp)
      else Inr stp)"

definition cleanup_character_step :: "nat \<Rightarrow> state_s \<Rightarrow> error + state_s" where
  "cleanup_character_step c stp =
     (if characters stp ! c \<noteq> 0 then
        bind_res (igraph_es_size_incident (red_black stp) (char_vertex stp (of_nat c))) (\<lambda>size.
          if size = 0 then delete_character stp c else Inr stp)
      else Inr stp)"

fun for_each :: "(nat \<Rightarrow> 's \<Rightarrow> error + 's) \<Rightarrow> nat list \<Rightarrow> 's \<Rightarrow> error + 's" where
  "for_each body [] st = Inr st"
| "for_each body (i # is) st = bind_res (body i st) (for_each body is)"

definition cleanup :: "state_s \<Rightarrow> error + state_s" where
  "cleanup stp =
     bind_res (for_each cleanup_species_step [0..<unat (num_species_orig stp)] stp) (\<lambda>stp1.
       for_each cleanup_character_step [0..<unat (num_characters_orig stp1)] stp1)"

text \<open>
  \<^verbatim>\<open>copy_state\<close> initialises the destination and copies the scalars, both graphs, the matrix
  pointer and, cell by cell, the arrays; the two lists of the destination stay empty.
\<close>

definition copy_cells :: "'a list \<Rightarrow> nat \<Rightarrow> 'a list" where
  "copy_cells xs k = map (\<lambda>i. xs ! i) [0..<k]"

definition copy_state :: "state_s \<Rightarrow> state_s \<Rightarrow> error + state_s" where
  "copy_state dst0 src =
     (if check_state src \<noteq> 0 then Inl AssertionFailed
      else
        let dst = (init_state dst0 (num_species_orig src) (num_characters_orig src))
              \<lparr>realize := realize src,
               tried_characters := [],
               character_queue := [],
               num_species := num_species src,
               num_characters := num_characters src,
               red_black := red_black src,
               conflict := conflict src,
               matrix := matrix src,
               current_states := copy_cells (current_states src) (unat (num_characters_orig src)),
               characters := copy_cells (characters src) (unat (num_characters_orig src)),
               colors := copy_cells (colors src) (unat (num_characters_orig src)),
               species := copy_cells (species src) (unat (num_species_orig src)),
               operation := operation src\<rparr>
        in if check_state dst \<noteq> 0 then Inl AssertionFailed
           else if state_cmp dst src \<noteq> 0 then Inl AssertionFailed
           else Inr dst)"

definition full_copy_state :: "state_s \<Rightarrow> state_s \<Rightarrow> error + state_s" where
  "full_copy_state dst0 src =
     bind_res (copy_state dst0 src) (\<lambda>dst.
       Inr (dst\<lparr>character_queue := character_queue src,
                tried_characters := tried_characters src\<rparr>))"


section \<open>Realization operator\<close>

text \<open>
  The species of the connected component of vertex \<open>c\<close> that are not adjacent to it: the
  sorted component minus the neighbours, filtered by the loop that fills \<^verbatim>\<open>not_adjacent\<close>.
\<close>

definition not_adjacent_species :: "igraph \<Rightarrow> nat \<Rightarrow> nat \<Rightarrow> error + nat list" where
  "not_adjacent_species g nspecies c =
     bind_res (igraph_subcomponent g c) (\<lambda>comp.
     bind_res (igraph_neighbors g c) (\<lambda>adjacent.
       Inr (filter (\<lambda>v. v < nspecies \<and> v \<noteq> c)
              (igraph_vector_difference_sorted (sort comp) adjacent))))"

definition realize_black :: "state_s \<Rightarrow> u32 \<Rightarrow> (nat \<times> nat) list \<Rightarrow> error + state_s" where
  "realize_black dst character new_red =
     bind_res (igraph_add_edges (red_black dst) new_red) (\<lambda>rb.
       Inr (dst\<lparr>red_black := rb,
                operation := 1,
                colors := (colors dst)[unat character := RED],
                current_states := (current_states dst)[unat character := 1]\<rparr>))"

definition realize_red :: "state_s \<Rightarrow> u32 \<Rightarrow> error + state_s" where
  "realize_red dst character =
     delete_character
       (dst\<lparr>operation := 2, colors := (colors dst)[unat character := RED + 1]\<rparr>)
       (unat character)"

text \<open>
  \<^verbatim>\<open>realize_character(dst, src)\<close>.  The result is the boolean it returns together with the
  destination state; a failed assertion or a fatal graph error is \<open>Inl\<close>.
\<close>

definition realize_character :: "state_s \<Rightarrow> state_s \<Rightarrow> error + (bool \<times> state_s)" where
  "realize_character dst0 src =
     bind_res (copy_state dst0 src) (\<lambda>dst.
     bind_res (assert_that (state_cmp src dst = 0)) (\<lambda>_.
     bind_res (assert_that (check_state src = 0)) (\<lambda>_.
     bind_res (assert_that (check_state dst = 0)) (\<lambda>_.
     let character = realize src;
         c = char_vertex src character;
         color = colors src ! unat character
     in
     bind_res (not_adjacent_species (red_black dst) (unat (num_species_orig dst)) c)
       (\<lambda>not_adjacent.
     bind_res (igraph_delete_incident (red_black dst) c) (\<lambda>rb.
     let dst1 = dst\<lparr>red_black := rb\<rparr> in
     bind_res (assert_that (check_state dst1 = 0)) (\<lambda>_.
     bind_res (if color = BLACK then realize_black dst1 character (map (Pair c) not_adjacent)
               else Inr dst1) (\<lambda>dst2.
     if color = RED \<and> not_adjacent \<noteq> [] then Inr (False, dst2\<lparr>operation := 0\<rparr>)
     else
     bind_res (if color = RED then realize_red dst2 character else Inr dst2) (\<lambda>dst3.
     let dst4 = dst3\<lparr>realize := character\<rparr> in
     bind_res (assert_that (check_state dst4 = 0)) (\<lambda>_.
     bind_res (cleanup dst4) (\<lambda>dst5.
     bind_res (assert_that (check_state dst5 = 0)) (\<lambda>_.
     Inr (True, dst5)))))))))))))"

section \<open>Instance loader\<close>

text \<open>
  The instance file is read as its sequence of unsigned integer tokens.  \<open>file_stream\<close> is
  the open stream (the tokens not yet read), \<open>None\<close> before the first call; \<open>contents\<close> is what
  opening \<open>filename\<close> gives, and \<open>final_space\<close> tells whether white space follows the last
  token of the file.  A conversion that stops at the end of the file sets the end-of-file
  indicator of the stream; one that stops at white space does not.
\<close>

record instances_schema_s =
  file_stream :: "u32 list option"
  contents :: "u32 list"
  final_space :: bool
  props_num_species :: u32
  props_num_characters :: u32

definition matrix_index :: "state_s \<Rightarrow> nat \<Rightarrow> nat \<Rightarrow> nat" where
  "matrix_index stp s c = unat (of_nat c + num_characters stp * of_nat s :: u32)"

definition matrix_get_value :: "state_s \<Rightarrow> nat \<Rightarrow> nat \<Rightarrow> u32" where
  "matrix_get_value stp s c = the (matrix stp) ! matrix_index stp s c"

definition matrix_set_value :: "state_s \<Rightarrow> nat \<Rightarrow> nat \<Rightarrow> u32 \<Rightarrow> state_s" where
  "matrix_set_value stp s c val =
     stp\<lparr>matrix := Some ((the (matrix stp))[matrix_index stp s c := val])\<rparr>"

text \<open>The header is read when the stream is opened, and only then.\<close>

definition open_instances :: "instances_schema_s \<Rightarrow> error + instances_schema_s" where
  "open_instances global_props =
     (case file_stream global_props of
        Some _ \<Rightarrow> Inr global_props
      | None \<Rightarrow>
         (case contents global_props of
            [] \<Rightarrow> Inl AssertionFailed
          | [n] \<Rightarrow> Inr (global_props\<lparr>file_stream := Some [], props_num_species := n\<rparr>)
          | n # m # rest \<Rightarrow>
              Inr (global_props\<lparr>file_stream := Some rest, props_num_species := n,
                                 props_num_characters := m\<rparr>)))"

text \<open>
  The loop that fills the matrix, over the cells in row-major order: \<open>Inr (False, _)\<close> is the
  early \<^verbatim>\<open>return false\<close> when \<^verbatim>\<open>feof\<close> holds after the \<^verbatim>\<open>fscanf\<close> of a cell.  That is the case
  when nothing was left to read, and also when the token just read is the last of a file
  that does not end in white space; that token is then not stored.
\<close>

fun read_cells ::
  "bool \<Rightarrow> (nat \<times> nat) list \<Rightarrow> u32 list \<Rightarrow> state_s \<Rightarrow> error + (bool \<times> u32 list \<times> state_s)"
  where
  "read_cells sp [] toks stp = Inr (True, toks, stp)"
| "read_cells sp ((s, c) # cells) [] stp =
     (if s = 0 \<and> c = 0 then Inr (False, [], stp) else Inl AssertionFailed)"
| "read_cells sp ((s, c) # cells) (t # toks) stp =
     (if toks = [] \<and> \<not> sp then Inr (False, [], stp)
      else read_cells sp cells toks (matrix_set_value stp s c t))"

definition cell_indices :: "nat \<Rightarrow> nat \<Rightarrow> (nat \<times> nat) list" where
  "cell_indices n m = concat (map (\<lambda>s. map (Pair s) [0..<m]) [0..<n])"

definition red_black_edges :: "state_s \<Rightarrow> (nat \<times> nat) list" where
  "red_black_edges stp =
     map (\<lambda>(s, c). (s, unat (of_nat c + num_species stp :: u32)))
       (filter (\<lambda>(s, c). matrix_get_value stp s c = 1)
          (cell_indices (unat (num_species stp)) (unat (num_characters stp))))"

text \<open>The table \<^verbatim>\<open>states[2][2]\<close> of a pair of columns, as its four cells in memory order.\<close>

definition column_pair_states :: "state_s \<Rightarrow> nat \<Rightarrow> nat \<Rightarrow> u32 list" where
  "column_pair_states stp c1 c2 =
     fold (\<lambda>s states.
             states[2 * unat (matrix_get_value stp s c1) + unat (matrix_get_value stp s c2) := 1])
       [0..<unat (num_species stp)] [0, 0, 0, 0]"

definition in_conflict :: "state_s \<Rightarrow> nat \<Rightarrow> nat \<Rightarrow> bool" where
  "in_conflict stp c1 c2 =
     (let states = column_pair_states stp c1 c2
      in states ! 0 + states ! 1 + states ! 2 + states ! 3 = 4)"

definition conflict_edges :: "state_s \<Rightarrow> (nat \<times> nat) list" where
  "conflict_edges stp =
     concat (map (\<lambda>c1. map (Pair c1)
                    (filter (in_conflict stp c1) [Suc c1..<unat (num_characters stp)]))
               [0..<unat (num_characters stp)])"

fun add_each_edge :: "(nat \<times> nat) list \<Rightarrow> igraph \<Rightarrow> error + igraph" where
  "add_each_edge [] g = Inr g"
| "add_each_edge ((u, v) # es) g = bind_res (igraph_add_edge g u v) (add_each_edge es)"

definition read_instance_from_filename ::
  "instances_schema_s \<Rightarrow> state_s \<Rightarrow> error + (bool \<times> instances_schema_s \<times> state_s)" where
  "read_instance_from_filename global_props0 stp0 =
     bind_res (open_instances global_props0) (\<lambda>global_props.
     let stp1 = (init_state stp0 (props_num_species global_props)
                   (props_num_characters global_props))
                 \<lparr>num_species := props_num_species global_props,
                  num_characters := props_num_characters global_props\<rparr>;
         stp2 = stp1\<lparr>matrix := Some (replicate (unat (num_species stp1 * num_characters stp1)) 0)\<rparr>
     in
     bind_res (read_cells (final_space global_props)
                 (cell_indices (unat (num_species stp2)) (unat (num_characters stp2)))
                 (the (file_stream global_props)) stp2) (\<lambda>(complete, toks, stp3).
     if \<not> complete then Inr (False, global_props\<lparr>file_stream := Some toks\<rparr>, stp3)
     else
     bind_res (add_each_edge (red_black_edges stp3) (red_black stp3)) (\<lambda>rb.
     bind_res (add_each_edge (conflict_edges stp3) (conflict stp3)) (\<lambda>cg.
     let stp4 = stp3\<lparr>red_black := rb, conflict := cg\<rparr> in
     bind_res (assert_that (check_state stp4 = 0)) (\<lambda>_.
     Inr (True, global_props\<lparr>file_stream := Some toks\<rparr>, stp4))))))"


section \<open>Decision-tree driver\<close>

text \<open>
  \<^verbatim>\<open>decision_tree.c\<close> is written against another revision of the header: it reads the target
  character as \<^verbatim>\<open>realized_char\<close>, which is the field \<open>realize\<close> here, and it hands the character
  to realize to \<^verbatim>\<open>realize_character\<close> as a third argument, which is the source state's \<open>realize\<close>
  in the two-argument function above.  \<^verbatim>\<open>new_state\<close> is not among the sources; the state it
  returns is overwritten by the copy at the start of the realization, so any struct will do.
\<close>

definition new_state :: state_s where
  "new_state =
     \<lparr>realize = 0, tried_characters = [], character_queue = [],
      num_species = 0, num_characters = 0, num_species_orig = 0, num_characters_orig = 0,
      red_black = igraph_empty 0, conflict = igraph_empty 0, matrix = None,
      current_states = [], species = [], characters = [], colors = [], operation = 0\<rparr>"

type_synonym strategy_fn = "state_s \<Rightarrow> u32 list"

definition no_sibling_p :: "state_s \<Rightarrow> bool" where
  "no_sibling_p stp = (character_queue stp = [])"

text \<open>
  \<^verbatim>\<open>next_node\<close> works on the array of states in place and returns the new level; the model
  returns both.  Writing the child past the end of the array is an error of its own.
\<close>

datatype fault = Aborted error | OutOfBounds

definition next_node ::
  "state_s list \<Rightarrow> u32 \<Rightarrow> strategy_fn \<Rightarrow> fault + (state_s list \<times> u32)" where
  "next_node states level node_init =
     (if \<not> unat level < length states then Inl OutOfBounds
      else
        let current = states ! unat level;
            current1 = (if tried_characters current = [] \<and> no_sibling_p current
                        then current\<lparr>character_queue := node_init current\<rparr> else current)
        in if no_sibling_p current1 then Inr (states[unat level := current1], level - 1)
           else
             let to_realize = hd (character_queue current1);
                 current2 = current1\<lparr>character_queue := tl (character_queue current1),
                                     tried_characters := realize current1 # tried_characters current1\<rparr>;
                 states2 = states[unat level := current2]
             in case realize_character new_state (current2\<lparr>realize := to_realize\<rparr>) of
                  Inl e \<Rightarrow> Inl (Aborted e)
                | Inr (accepted, modified) \<Rightarrow>
                    if operation modified > 0 then
                      if \<not> Suc (unat level) < length states then Inl OutOfBounds
                      else
                        (case copy_state (states2 ! Suc (unat level)) modified of
                           Inl e \<Rightarrow> Inl (Aborted e)
                         | Inr next \<Rightarrow>
                             Inr (states2[Suc (unat level) :=
                                    next\<lparr>character_queue := [], tried_characters := []\<rparr>],
                                  level + 1))
                    else Inr (states2, level))"

text \<open>What \<^verbatim>\<open>exhaustive_search\<close> prints: the numbered characters of a solution, or \<^verbatim>\<open>END\<close>.\<close>

datatype outcome = Solution_found "(u32 \<times> u32) list" | END

definition print_solution :: "state_s list \<Rightarrow> u32 \<Rightarrow> (u32 \<times> u32) list" where
  "print_solution states level =
     map (\<lambda>i. (of_nat i, realize (states ! unat level))) [0..<Suc (unat level)]"

text \<open>
  The loop of \<^verbatim>\<open>exhaustive_search\<close>, entered with the level the previous \<^verbatim>\<open>next_node\<close> returned.
  Nothing in the loop bounds the number of its rounds, so the model counts them down:
  \<open>None\<close> is a search that is still running when the count is used up.
\<close>

fun search_loop ::
  "nat \<Rightarrow> state_s list \<Rightarrow> u32 \<Rightarrow> strategy_fn \<Rightarrow> (fault + outcome) option" where
  "search_loop 0 states level strategy = None"
| "search_loop (Suc fuel) states level strategy =
     (if level = - 1 then Some (Inr END)
      else if \<not> unat level < length states then Some (Inl OutOfBounds)
      else
        case cleanup (states ! unat level) of
          Inl e \<Rightarrow> Some (Inl (Aborted e))
        | Inr cleaned \<Rightarrow>
            let states1 = states[unat level := cleaned] in
            if num_species (states1 ! unat level) = 0
            then Some (Inr (Solution_found (print_solution states1 level)))
            else
              (case next_node states1 level strategy of
                 Inl f \<Rightarrow> Some (Inl f)
               | Inr (states2, level2) \<Rightarrow> search_loop fuel states2 level2 strategy))"

definition exhaustive_search ::
  "nat \<Rightarrow> state_s list \<Rightarrow> strategy_fn \<Rightarrow> (fault + outcome) option" where
  "exhaustive_search fuel states strategy =
     (case next_node states 0 strategy of
        Inl f \<Rightarrow> Some (Inl f)
      | Inr (states1, level) \<Rightarrow> search_loop fuel states1 level strategy)"

text \<open>
  Modelled from the spec: the strategy "all active characters in index order".  The
  sources' own \<^verbatim>\<open>characters_list\<close> does not compile.
\<close>

definition natural_order :: strategy_fn where
  "natural_order stp =
     map of_nat (filter (\<lambda>c. characters stp ! c \<noteq> 0) [0..<unat (num_characters_orig stp)])"

section \<open>Snapshot codec\<close>

text \<open>
  A snapshot is a JSON document next to two graph files.  The JSON library and the graph
  library's file format are outside the repository: a file here holds the document or the
  graph that was written to it, and reading gives back what was written.
\<close>

datatype json = JInteger int | JString string | JArray "json list" | JObject "(string \<times> json) list"

datatype file_content = Json_file json | Graphml_file igraph

type_synonym filesystem = "string \<Rightarrow> file_content option"

definition json_object_get :: "json \<Rightarrow> string \<Rightarrow> json option" where
  "json_object_get root field = (case root of JObject kvs \<Rightarrow> map_of kvs field | _ \<Rightarrow> None)"

fun json_object_set :: "(string \<times> json) list \<Rightarrow> string \<Rightarrow> json \<Rightarrow> (string \<times> json) list" where
  "json_object_set [] key val = [(key, val)]"
| "json_object_set ((k, w) # kvs) key val =
     (if k = key then (k, val) # kvs else (k, w) # json_object_set kvs key val)"

definition json_integer_value :: "json \<Rightarrow> int" where
  "json_integer_value j = (case j of JInteger i \<Rightarrow> i | _ \<Rightarrow> 0)"

definition json_array2gslist :: "json list \<Rightarrow> u32 list" where
  "json_array2gslist array = map (\<lambda>val. word_of_int (json_integer_value val)) array"

definition json_array2array :: "json list \<Rightarrow> u32 list" where
  "json_array2array array = map (\<lambda>val. word_of_int (json_integer_value val)) array"

definition json_get_integer :: "json \<Rightarrow> string \<Rightarrow> error + u32" where
  "json_get_integer root field =
     (case json_object_get root field of
        None \<Rightarrow> Inl AssertionFailed
      | Some (JInteger i) \<Rightarrow> Inr (word_of_int i)
      | Some _ \<Rightarrow> Inl AssertionFailed)"

definition json_get_string :: "json \<Rightarrow> string \<Rightarrow> error + string" where
  "json_get_string root field =
     (case json_object_get root field of
        None \<Rightarrow> Inl AssertionFailed
      | Some (JString str) \<Rightarrow> Inr str
      | Some _ \<Rightarrow> Inl AssertionFailed)"

definition json_get_array :: "json \<Rightarrow> string \<Rightarrow> error + u32 list" where
  "json_get_array root field =
     (case json_object_get root field of
        None \<Rightarrow> Inl AssertionFailed
      | Some (JArray array) \<Rightarrow> Inr (json_array2array array)
      | Some _ \<Rightarrow> Inl AssertionFailed)"

definition json_get_list :: "json \<Rightarrow> string \<Rightarrow> bool \<Rightarrow> error + u32 list" where
  "json_get_list root field optional =
     (if \<not> optional then
        (case json_object_get root field of
           None \<Rightarrow> Inl AssertionFailed
         | Some (JArray array) \<Rightarrow> Inr (json_array2gslist array)
         | Some _ \<Rightarrow> Inl AssertionFailed)
      else Inr [])"

definition read_graphml :: "filesystem \<Rightarrow> string \<Rightarrow> error + igraph" where
  "read_graphml fs name =
     (case fs name of
        None \<Rightarrow> Inl AssertionFailed
      | Some (Graphml_file g) \<Rightarrow> Inr g
      | Some (Json_file _) \<Rightarrow> Inl GraphCorrupt)"

definition read_state :: "string \<Rightarrow> state_s \<Rightarrow> filesystem \<Rightarrow> error + state_s" where
  "read_state filename stp fs =
     (case fs filename of
        Some (Json_file data) \<Rightarrow>
          bind_res (json_get_integer data ''num_species_orig'') (\<lambda>nspecies.
          bind_res (json_get_integer data ''num_characters_orig'') (\<lambda>nchars.
          let stp1 = init_state stp nspecies nchars in
          bind_res (json_get_integer data ''realize'') (\<lambda>r.
          bind_res (json_get_list data ''tried_characters'' True) (\<lambda>tried.
          bind_res (json_get_list data ''character_queue'' True) (\<lambda>queue.
          bind_res (json_get_integer data ''num_species'') (\<lambda>n.
          bind_res (json_get_integer data ''num_characters'') (\<lambda>m.
          bind_res (json_get_array data ''current'') (\<lambda>current.
          bind_res (json_get_array data ''species'') (\<lambda>sp.
          bind_res (json_get_array data ''characters'') (\<lambda>chars.
          bind_res (json_get_string data ''red_black_file'') (\<lambda>rb_name.
          bind_res (read_graphml fs rb_name) (\<lambda>rb.
          bind_res (json_get_string data ''conflict_file'') (\<lambda>c_name.
          bind_res (read_graphml fs c_name) (\<lambda>cg.
          let stp2 = stp1\<lparr>realize := r, tried_characters := tried, character_queue := queue,
                          num_species := n, num_characters := m, current_states := current,
                          species := sp, characters := chars, red_black := rb, conflict := cg\<rparr>
          in bind_res (assert_that (check_state stp2 = 0)) (\<lambda>_. Inr stp2)))))))))))))))
      | _ \<Rightarrow> Inl AssertionFailed)"

definition gslist2json_array :: "u32 list \<Rightarrow> json" where
  "gslist2json_array list = JArray (map (\<lambda>d. JInteger (sint d)) list)"

definition array2json_array :: "u32 list \<Rightarrow> nat \<Rightarrow> json" where
  "array2json_array p sz = JArray (map (\<lambda>i. JInteger (uint (p ! i))) [0..<sz])"

definition build_json_state :: "state_s \<Rightarrow> string \<Rightarrow> string \<Rightarrow> error + json" where
  "build_json_state stp redblack_filename conflict_filename =
     bind_res (assert_that (check_state stp = 0)) (\<lambda>_.
     let d1 = json_object_set [] ''realize'' (JInteger (uint (realize stp)));
         d2 = json_object_set d1 ''tried_characters'' (gslist2json_array (tried_characters stp));
         d3 = json_object_set d2 ''character_queue'' (gslist2json_array (character_queue stp));
         d4 = json_object_set d3 ''num_species'' (JInteger (uint (num_species stp)));
         d5 = json_object_set d4 ''num_characters'' (JInteger (uint (num_characters stp)));
         d6 = json_object_set d5 ''num_species_orig'' (JInteger (uint (num_species_orig stp)));
         d7 = json_object_set d6 ''num_characters_orig''
                (JInteger (uint (num_characters_orig stp)));
         d8 = (case matrix stp of
                 None \<Rightarrow> d7
               | Some mat \<Rightarrow>
                   json_object_set d7 ''matrix''
                     (array2json_array mat (unat (num_species stp * num_characters stp))));
         d9 = json_object_set d8 ''current''
                (array2json_array (current_states stp) (unat (num_characters_orig stp)));
         d10 = json_object_set d9 ''species''
                 (array2json_array (species stp) (unat (num_species_orig stp)));
         d11 = json_object_set d10 ''characters''
                 (array2json_array (characters stp) (unat (num_characters_orig stp)));
         d12 = json_object_set d11 ''red_black_file'' (JString redblack_filename);
         d13 = json_object_set d12 ''conflict_file'' (JString conflict_filename)
     in Inr (JObject d13))"

definition write_state :: "string \<Rightarrow> state_s \<Rightarrow> filesystem \<Rightarrow> error + filesystem" where
  "write_state filename stp fs =
     (let rb_filename = filename @ ''-redblack.graphml'';
          fs1 = fs(rb_filename := Some (Graphml_file (red_black stp)));
          c_filename = filename @ ''-conflict.graphml'';
          fs2 = fs1(c_filename := Some (Graphml_file (conflict stp)))
      in bind_res (assert_that (check_state stp = 0)) (\<lambda>_.
         bind_res (build_json_state stp rb_filename c_filename) (\<lambda>data.
           Inr (fs2(filename := Some (Json_file data))))))"

text \<open>
  The replay mode of \<^verbatim>\<open>main\<close>: the characters of the test document are realized in order,
  each result copied back over the working state; with no character the state is cleaned up.
\<close>

fun realize_each :: "u32 list \<Rightarrow> state_s \<Rightarrow> error + state_s" where
  "realize_each [] stp = Inr stp"
| "realize_each (val # rest) stp =
     bind_res (realize_character new_state (stp\<lparr>realize := val\<rparr>)) (\<lambda>(accepted, st2).
     bind_res (copy_state stp st2) (\<lambda>stp1.
     bind_res (assert_that (check_state stp1 = 0)) (\<lambda>_. realize_each rest stp1)))"

definition replay :: "string \<Rightarrow> u32 list \<Rightarrow> string \<Rightarrow> filesystem \<Rightarrow> error + filesystem" where
  "replay input_json_filename listc output fs =
     bind_res (read_state input_json_filename new_state fs) (\<lambda>st.
     bind_res (assert_that (check_state st = 0)) (\<lambda>_.
     bind_res (if length listc > 0 then realize_each listc st else cleanup st) (\<lambda>st1.
     bind_res (assert_that (check_state st1 = 0)) (\<lambda>_.
       write_state output st1 fs))))"


section \<open>Example inputs\<close>

text \<open>
  An instance file that has not been opened yet, given by its tokens; it ends with a line
  break.
\<close>

definition instance_file :: "u32 list \<Rightarrow> instances_schema_s" where
  "instance_file toks =
     \<lparr>file_stream = None, contents = toks, final_space = True,
      props_num_species = 0, props_num_characters = 0\<rparr>"

text \<open>The state the loader builds from an instance file, when it builds one.\<close>

definition load_instance :: "u32 list \<Rightarrow> error + state_s" where
  "load_instance toks =
     bind_res (read_instance_from_filename (instance_file toks) new_state)
       (\<lambda>(complete, global_props, stp). if complete then Inr stp else Inl AssertionFailed)"

text \<open>Realizing character \<open>c\<close> in a state: the caller stores the target, then realizes.\<close>

definition realize_in :: "u32 \<Rightarrow> state_s \<Rightarrow> error + (bool \<times> state_s)" where
  "realize_in c stp = realize_character new_state (stp\<lparr>realize := c\<rparr>)"

definition no_files :: filesystem where
  "no_files = (\<lambda>name. None)"

text \<open>
  A snapshot of a search node on one species and one character whose document lists tried
  and queued characters.
\<close>

definition queued_snapshot :: filesystem where
  "queued_snapshot =
     no_files
       (''node'' := Some (Json_file (JObject
          [(''realize'', JInteger 0),
           (''tried_characters'', JArray [JInteger 5, JInteger 7]),
           (''character_queue'', JArray [JInteger 0]),
           (''num_species'', JInteger 1),
           (''num_characters'', JInteger 1),
           (''num_species_orig'', JInteger 1),
           (''num_characters_orig'', JInteger 1),
           (''current'', JArray [JInteger 0]),
           (''species'', JArray [JInteger 1]),
           (''characters'', JArray [JInteger 1]),
           (''red_black_file'', JString ''node-redblack.graphml''),
           (''conflict_file'', JString ''node-conflict.graphml'')])),
        ''node-redblack.graphml'' := Some (Graphml_file \<lparr>vcount = 2, edgelist = [(0, 1)]\<rparr>),
        ''node-conflict.graphml'' := Some (Graphml_file \<lparr>vcount = 1, edgelist = []\<rparr>))"

text \<open>
  The snapshot \<^verbatim>\<open>in\<close> of the instance \<^verbatim>\<open>2 2 / 1 0 / 0 0\<close> as loaded: species 1 and character 1
  have no edge.
\<close>

definition sparse_snapshot :: filesystem where
  "sparse_snapshot =
     no_files
       (''in'' := Some (Json_file (JObject
          [(''realize'', JInteger 0),
           (''tried_characters'', JArray []),
           (''character_queue'', JArray []),
           (''num_species'', JInteger 2),
           (''num_characters'', JInteger 2),
           (''num_species_orig'', JInteger 2),
           (''num_characters_orig'', JInteger 2),
           (''current'', JArray [JInteger 0, JInteger 0]),
           (''species'', JArray [JInteger 1, JInteger 1]),
           (''characters'', JArray [JInteger 1, JInteger 1]),
           (''red_black_file'', JString ''in-redblack.graphml''),
           (''conflict_file'', JString ''in-conflict.graphml'')])),
        ''in-redblack.graphml'' := Some (Graphml_file \<lparr>vcount = 4, edgelist = [(0, 2)]\<rparr>),
        ''in-conflict.graphml'' := Some (Graphml_file \<lparr>vcount = 2, edgelist = []\<rparr>))"
section \<open>Predicates on states\<close>

text \<open>
  The arrays of a state have the sizes \<^verbatim>\<open>init_state\<close> allocates them with, the red-black graph
  has one vertex per species and per character, and the vertex ids fit 32 bits.  Outside
  these bounds the C code reads and writes past its arrays.
\<close>

definition well_formed :: "state_s \<Rightarrow> bool" where
  "well_formed stp \<longleftrightarrow>
     length (species stp) = unat (num_species_orig stp) \<and>
     length (characters stp) = unat (num_characters_orig stp) \<and>
     length (current_states stp) = unat (num_characters_orig stp) \<and>
     length (colors stp) = unat (num_characters_orig stp) \<and>
     unat (num_species_orig stp) + unat (num_characters_orig stp) < 2 ^ 32 \<and>
     vcount (red_black stp) = unat (num_species_orig stp) + unat (num_characters_orig stp)"

text \<open>No character is marked active while its current state says it was removed.\<close>

definition active_consistent :: "state_s \<Rightarrow> bool" where
  "active_consistent stp \<longleftrightarrow>
     list_all (\<lambda>c. characters stp ! c = 0 \<or> current_states stp ! c \<noteq> - 1)
       [0..<unat (num_characters_orig stp)]"

definition state_ok :: "state_s \<Rightarrow> bool" where
  "state_ok stp \<longleftrightarrow> well_formed stp \<and> check_state stp = 0 \<and> active_consistent stp"

text \<open>
  A null species or character is an active one without edges in the red-black graph: what
  \<^verbatim>\<open>cleanup\<close> deletes.
\<close>

definition null_species :: "state_s \<Rightarrow> nat \<Rightarrow> bool" where
  "null_species stp s \<longleftrightarrow> species stp ! s \<noteq> 0 \<and> adjacent_ends (red_black stp) s = []"

definition null_character :: "state_s \<Rightarrow> nat \<Rightarrow> bool" where
  "null_character stp c \<longleftrightarrow>
     characters stp ! c \<noteq> 0 \<and> adjacent_ends (red_black stp) (char_vertex stp (of_nat c)) = []"

text \<open>An index that one round of \<^verbatim>\<open>cleanup\<close> leaves alone: inactive, or active with an edge.\<close>

definition settled_species :: "state_s \<Rightarrow> nat \<Rightarrow> bool" where
  "settled_species stp s \<longleftrightarrow>
     species stp ! s = 0 \<or>
     (s < vcount (red_black stp) \<and> adjacent_ends (red_black stp) s \<noteq> [])"

definition settled_character :: "state_s \<Rightarrow> nat \<Rightarrow> bool" where
  "settled_character stp c \<longleftrightarrow>
     characters stp ! c = 0 \<or>
     (char_vertex stp (of_nat c) < vcount (red_black stp) \<and>
      adjacent_ends (red_black stp) (char_vertex stp (of_nat c)) \<noteq> [])"

text \<open>The number of cells among the first \<open>k\<close> that satisfy \<open>P\<close>, as a natural number.\<close>

definition cnt :: "('a \<Rightarrow> bool) \<Rightarrow> 'a list \<Rightarrow> nat \<Rightarrow> nat" where
  "cnt P xs k = length (filter (\<lambda>i. P (xs ! i)) [0..<k])"

text \<open>Adjacency in an undirected graph; its reflexive transitive closure is connectedness.\<close>

definition adjacent :: "igraph \<Rightarrow> (nat \<times> nat) set" where
  "adjacent g = {(u, w). (u, w) \<in> set (edgelist g) \<or> (w, u) \<in> set (edgelist g)}"

text \<open>The graph without the edges at \<open>v\<close>.\<close>

definition without_incident :: "igraph \<Rightarrow> nat \<Rightarrow> igraph" where
  "without_incident g v = g\<lparr>edgelist := filter (\<lambda>e. \<not> incident v e) (edgelist g)\<rparr>"

text \<open>
  The set \<open>D\<close> as the specification words it: every vertex of the component of \<open>v\<close> that is
  neither a neighbour of \<open>v\<close> nor \<open>v\<close> itself, species or not.
\<close>

definition not_adjacent_vertices :: "igraph \<Rightarrow> nat \<Rightarrow> error + nat list" where
  "not_adjacent_vertices g v =
     bind_res (igraph_subcomponent g v) (\<lambda>comp.
     bind_res (igraph_neighbors g v) (\<lambda>adjacent.
       Inr (filter (\<lambda>u. u \<noteq> v) (igraph_vector_difference_sorted (sort comp) adjacent))))"

text \<open>
  The condition of the conflict graph as the specification words it, on the cells of the
  matrix in row-major order: the pair of states \<open>(a, b)\<close> occurs on columns \<open>c1\<close>, \<open>c2\<close> in
  some row, and all four pairs occur.
\<close>

definition pair_occurs :: "u32 list \<Rightarrow> nat \<Rightarrow> nat \<Rightarrow> nat \<Rightarrow> nat \<Rightarrow> u32 \<Rightarrow> u32 \<Rightarrow> bool" where
  "pair_occurs cells n m c1 c2 a b =
     list_ex (\<lambda>s. cells ! (s * m + c1) = a \<and> cells ! (s * m + c2) = b) [0..<n]"

definition all_four_states :: "u32 list \<Rightarrow> nat \<Rightarrow> nat \<Rightarrow> nat \<Rightarrow> nat \<Rightarrow> bool" where
  "all_four_states cells n m c1 c2 \<longleftrightarrow>
     pair_occurs cells n m c1 c2 0 0 \<and> pair_occurs cells n m c1 c2 0 1 \<and>
     pair_occurs cells n m c1 c2 1 0 \<and> pair_occurs cells n m c1 c2 1 1"

section \<open>A worked instance\<close>

text \<open>
  The instance \<^verbatim>\<open>3 2 / 1 0 / 1 1 / 0 1\<close> as the loader builds it, after character 1 has been
  realized, and after character 0 has been realized as well.
\<close>

definition chain_start :: state_s where
  "chain_start =
     \<lparr>realize = 0, tried_characters = [], character_queue = [],
      num_species = 3, num_characters = 2, num_species_orig = 3, num_characters_orig = 2,
      red_black = \<lparr>vcount = 5, edgelist = [(0, 3), (1, 3), (1, 4), (2, 4)]\<rparr>,
      conflict = \<lparr>vcount = 2, edgelist = []\<rparr>, matrix = Some [1, 0, 1, 1, 0, 1],
      current_states = [0, 0], species = [1, 1, 1], characters = [1, 1],
      colors = [BLACK, BLACK], operation = 0\<rparr>"

definition chain_red :: state_s where
  "chain_red =
     \<lparr>realize = 1, tried_characters = [], character_queue = [],
      num_species = 2, num_characters = 2, num_species_orig = 3, num_characters_orig = 2,
      red_black = \<lparr>vcount = 5, edgelist = [(0, 3), (1, 3), (4, 0)]\<rparr>,
      conflict = \<lparr>vcount = 2, edgelist = []\<rparr>, matrix = Some [1, 0, 1, 1, 0, 1],
      current_states = [0, 1], species = [1, 1, 0], characters = [1, 1],
      colors = [BLACK, RED], operation = 1\<rparr>"

definition chain_free :: state_s where
  "chain_free =
     \<lparr>realize = 0, tried_characters = [], character_queue = [],
      num_species = 1, num_characters = 1, num_species_orig = 3, num_characters_orig = 2,
      red_black = \<lparr>vcount = 5, edgelist = [(4, 0)]\<rparr>,
      conflict = \<lparr>vcount = 2, edgelist = []\<rparr>, matrix = Some [1, 0, 1, 1, 0, 1],
      current_states = [- 1, 1], species = [1, 0, 0], characters = [0, 1],
      colors = [RED, RED], operation = 1\<rparr>"

text \<open>
  The instance \<^verbatim>\<open>2 2 / 1 0 / 0 0\<close> as the loader builds it: species 1 and character 1 have
  no edge.
\<close>

definition sparse_state :: state_s where
  "sparse_state =
     \<lparr>realize = 0, tried_characters = [], character_queue = [],
      num_species = 2, num_characters = 2, num_species_orig = 2, num_characters_orig = 2,
      red_black = \<lparr>vcount = 4, edgelist = [(0, 2)]\<rparr>,
      conflict = \<lparr>vcount = 2, edgelist = []\<rparr>, matrix = Some [1, 0, 0, 0],
      current_states = [0, 0], species = [1, 1], characters = [1, 1],
      colors = [BLACK, BLACK], operation = 0\<rparr>"

text \<open>The instance \<^verbatim>\<open>2 2 / 1 0 / 1 1\<close> after character 0 has been realized.\<close>

definition spent_state :: state_s where
  "spent_state =
     \<lparr>realize = 0, tried_characters = [], character_queue = [],
      num_species = 1, num_characters = 1, num_species_orig = 2, num_characters_orig = 2,
      red_black = \<lparr>vcount = 4, edgelist = [(1, 3)]\<rparr>,
      conflict = \<lparr>vcount = 2, edgelist = []\<rparr>, matrix = Some [1, 0, 1, 1],
      current_states = [- 1, 0], species = [0, 1], characters = [0, 1],
      colors = [RED, BLACK], operation = 1\<rparr>"

text \<open>
  The state that \<^verbatim>\<open>read_state\<close> loads from a snapshot of the loaded instance
  \<^verbatim>\<open>2 2 / 1 0 / 0 0\<close>: the matrix is not read back.
\<close>

definition sparse_read :: state_s where
  "sparse_read = sparse_state\<lparr>matrix := None\<rparr>"

text \<open>That state after \<^verbatim>\<open>cleanup\<close>.\<close>

definition sparse_clean :: state_s where
  "sparse_clean =
     sparse_read\<lparr>species := [1, 0], num_species := 1, characters := [1, 0],
                  current_states := [0, - 1], num_characters := 1\<rparr>"
section \<open>Basic facts\<close>

lemma bind_res_Inl [simp]: "bind_res (Inl e) f = Inl e"
  by (simp add: bind_res_def)

lemma bind_res_Inr [simp]: "bind_res (Inr v) f = f v"
  by (simp add: bind_res_def)

lemma bind_res_eq_Inr: "bind_res m f = Inr y \<longleftrightarrow> (\<exists>v. m = Inr v \<and> f v = Inr y)"
  by (cases m) simp_all

lemma assert_that_simps [simp]:
  "assert_that True = Inr ()" "assert_that False = Inl AssertionFailed"
  by (simp_all add: assert_that_def)

lemma assert_that_eq_Inr [simp]: "assert_that b = Inr u \<longleftrightarrow> b"
  by (simp add: assert_that_def)

lemma flags5_eq_0:
  "(if a then 1 else 0) + (if b then 2 else 0) + (if c then 4 else 0) + (if d then 8 else 0)
     + (if e then 16 else 0) = (0 :: u32) \<longleftrightarrow> \<not> a \<and> \<not> b \<and> \<not> c \<and> \<not> d \<and> \<not> e"
  by (cases a; cases b; cases c; cases d; cases e) simp_all

lemma flags7_eq_0:
  "(if a then 1 else 0) + (if b then 2 else 0) + (if c then 4 else 0) + (if d then 8 else 0)
     + (if e then 16 else 0) + (if f then 32 else 0) + (if g then 64 else 0) = (0 :: u32)
   \<longleftrightarrow> \<not> a \<and> \<not> b \<and> \<not> c \<and> \<not> d \<and> \<not> e \<and> \<not> f \<and> \<not> g"
  by (cases a; cases b; cases c; cases d; cases e; cases f; cases g) simp_all

lemma check_state_eq_0:
  "check_state stp = 0 \<longleftrightarrow>
     num_species stp \<noteq> - 1 \<and> num_species stp \<le> num_species_orig stp \<and>
     num_characters stp \<noteq> - 1 \<and> num_characters stp \<le> num_characters_orig stp \<and>
     count_cells (\<lambda>w. w \<noteq> 0) (species stp) (unat (num_species_orig stp)) = num_species stp \<and>
     count_cells (\<lambda>w. w \<noteq> 0) (characters stp) (unat (num_characters_orig stp))
       = num_characters stp \<and>
     count_cells (\<lambda>w. w \<noteq> - 1) (current_states stp) (unat (num_characters_orig stp))
       = num_characters stp"
  unfolding check_state_def flags5_eq_0 by (simp add: not_less)

lemma state_cmp_eq_0:
  "state_cmp stp1 stp2 = 0 \<longleftrightarrow>
     num_characters stp1 = num_characters stp2 \<and> num_species stp1 = num_species stp2 \<and>
     num_characters_orig stp1 = num_characters_orig stp2 \<and>
     num_species_orig stp1 = num_species_orig stp2 \<and>
     \<not> cells_differ (current_states stp1) (current_states stp2)
          (unat (num_characters_orig stp2)) \<and>
     \<not> cells_differ (species stp1) (species stp2) (unat (num_species_orig stp2)) \<and>
     \<not> cells_differ (characters stp1) (characters stp2) (unat (num_characters_orig stp2))"
  unfolding state_cmp_def flags7_eq_0 by simp

section \<open>The breadth-first search finds the connected component\<close>

lemma adjacent_ends_adjacent: "w \<in> set (adjacent_ends g u) \<longleftrightarrow> (u, w) \<in> adjacent g"
  by (simp add: set_adjacent_ends adjacent_def)

lemma bfs_sound:
  assumes "set queue \<subseteq> C" "set seen \<subseteq> C" "\<forall>u \<in> C. set (adjacent_ends g u) \<subseteq> C"
  shows "set (bfs g queue seen) \<subseteq> C"
  using assms
proof (induction g queue seen rule: bfs.induct)
  case (1 g seen)
  then show ?case by simp
next
  case (2 g v queue seen)
  have "set (adjacent_ends g v) \<subseteq> C" using "2.prems" by simp
  then have "set (bfs g (queue @ remdups (filter (\<lambda>y. y \<notin> set seen) (adjacent_ends g v)))
                    (seen @ remdups (filter (\<lambda>y. y \<notin> set seen) (adjacent_ends g v)))) \<subseteq> C"
    using "2.prems" by (intro "2.IH") auto
  then show ?case by simp
qed

lemma bfs_closed:
  assumes "set queue \<subseteq> set seen"
    and "\<forall>u \<in> set seen - set queue. set (adjacent_ends g u) \<subseteq> set seen"
  shows "set seen \<subseteq> set (bfs g queue seen) \<and>
         (\<forall>u \<in> set (bfs g queue seen). set (adjacent_ends g u) \<subseteq> set (bfs g queue seen))"
  using assms
proof (induction g queue seen rule: bfs.induct)
  case (1 g seen)
  then show ?case by simp
next
  case (2 g v queue seen)
  let ?new = "remdups (filter (\<lambda>y. y \<notin> set seen) (adjacent_ends g v))"
  have a: "set (queue @ ?new) \<subseteq> set (seen @ ?new)" using "2.prems"(1) by auto
  have b: "\<forall>u \<in> set (seen @ ?new) - set (queue @ ?new).
             set (adjacent_ends g u) \<subseteq> set (seen @ ?new)"
    using "2.prems" by auto
  from "2.IH" [OF a b] show ?case by auto
qed

lemma bfs_distinct:
  "distinct seen \<Longrightarrow> distinct (bfs g queue seen)"
  by (induction g queue seen rule: bfs.induct) auto

lemma subcomponent_is_component:
  assumes "igraph_subcomponent g v = Inr vs"
  shows "set vs = {u. (v, u) \<in> (adjacent g)\<^sup>*}" and "distinct vs"
proof -
  have vs: "vs = bfs g [v] [v]"
    using assms by (simp add: igraph_subcomponent_def split: if_splits)
  let ?C = "{u. (v, u) \<in> (adjacent g)\<^sup>*}"
  have "\<forall>u \<in> ?C. set (adjacent_ends g u) \<subseteq> ?C"
    by (auto simp: adjacent_ends_adjacent intro: rtrancl_into_rtrancl)
  then have sub: "set vs \<subseteq> ?C"
    unfolding vs by (intro bfs_sound) auto
  have cl: "v \<in> set vs" "\<forall>u \<in> set vs. set (adjacent_ends g u) \<subseteq> set vs"
    using bfs_closed [of "[v]" "[v]" g] by (auto simp: vs)
  have "u \<in> set vs" if "(v, u) \<in> (adjacent g)\<^sup>*" for u
    using that
  proof (induction rule: rtrancl_induct)
    case base
    then show ?case by (rule cl(1))
  next
    case (step u w)
    then show ?case using cl(2) adjacent_ends_adjacent [of w g u] by blast
  qed
  then show "set vs = ?C" using sub by auto
  show "distinct vs" unfolding vs by (intro bfs_distinct) simp
qed


lemma not_adjacent_species_meaning:
  assumes "not_adjacent_species g n v = Inr D"
  shows "set D = {u. u < n \<and> u \<noteq> v \<and> (v, u) \<in> (adjacent g)\<^sup>* \<and> (v, u) \<notin> adjacent g}"
proof -
  from assms obtain vs where vs: "igraph_subcomponent g v = Inr vs"
    and D: "D = filter (\<lambda>u. u < n \<and> u \<noteq> v)
                  (igraph_vector_difference_sorted (sort vs) (sort (adjacent_ends g v)))"
    by (auto simp: not_adjacent_species_def igraph_neighbors_def bind_res_eq_Inr
          split: if_splits)
  show ?thesis
    unfolding D using subcomponent_is_component(1) [OF vs]
    by (auto simp: igraph_vector_difference_sorted_def adjacent_ends_adjacent)
qed

lemma not_adjacent_vertices_meaning:
  assumes "not_adjacent_vertices g v = Inr D"
  shows "set D = {u. u \<noteq> v \<and> (v, u) \<in> (adjacent g)\<^sup>* \<and> (v, u) \<notin> adjacent g}"
proof -
  from assms obtain vs where vs: "igraph_subcomponent g v = Inr vs"
    and D: "D = filter (\<lambda>u. u \<noteq> v)
                  (igraph_vector_difference_sorted (sort vs) (sort (adjacent_ends g v)))"
    by (auto simp: not_adjacent_vertices_def igraph_neighbors_def bind_res_eq_Inr
          split: if_splits)
  show ?thesis
    unfolding D using subcomponent_is_component(1) [OF vs]
    by (auto simp: igraph_vector_difference_sorted_def adjacent_ends_adjacent)
qed

section \<open>A second cleanup changes nothing\<close>

lemma species_step_settled:
  "settled_species stp s \<Longrightarrow> cleanup_species_step s stp = Inr stp"
  by (auto simp: settled_species_def cleanup_species_step_def igraph_es_size_incident_def)

lemma character_step_settled:
  "settled_character stp c \<Longrightarrow> cleanup_character_step c stp = Inr stp"
  by (auto simp: settled_character_def cleanup_character_step_def igraph_es_size_incident_def)

lemma species_loop_settled:
  "\<forall>s \<in> set is. settled_species stp s \<Longrightarrow> for_each cleanup_species_step is stp = Inr stp"
  by (induction "is") (simp_all add: species_step_settled)

lemma character_loop_settled:
  "\<forall>c \<in> set is. settled_character stp c \<Longrightarrow> for_each cleanup_character_step is stp = Inr stp"
  by (induction "is") (simp_all add: character_step_settled)

lemma species_step_result:
  assumes "cleanup_species_step s stp = Inr stp'" and "s < length (species stp)"
  shows "settled_species stp' s \<and> (\<forall>j. settled_species stp j \<longrightarrow> settled_species stp' j) \<and>
         (\<forall>j. settled_character stp j \<longrightarrow> settled_character stp' j) \<and>
         length (species stp') = length (species stp) \<and>
         characters stp' = characters stp \<and>
         num_species_orig stp' = num_species_orig stp \<and>
         num_characters_orig stp' = num_characters_orig stp"
  using assms
  by (auto simp: cleanup_species_step_def igraph_es_size_incident_def delete_species_def
        settled_species_def settled_character_def char_vertex_def nth_list_update
        split: if_splits)

lemma character_step_result:
  assumes "cleanup_character_step c stp = Inr stp'" and "c < length (characters stp)"
  shows "settled_character stp' c \<and> (\<forall>j. settled_character stp j \<longrightarrow> settled_character stp' j) \<and>
         (\<forall>j. settled_species stp j \<longrightarrow> settled_species stp' j) \<and>
         length (characters stp') = length (characters stp) \<and>
         num_species_orig stp' = num_species_orig stp \<and>
         num_characters_orig stp' = num_characters_orig stp"
  using assms
  by (auto simp: cleanup_character_step_def igraph_es_size_incident_def delete_character_def
        settled_species_def settled_character_def char_vertex_def nth_list_update
        split: if_splits)

lemma species_loop_result:
  assumes "for_each cleanup_species_step is stp = Inr stp'"
    and "\<forall>s \<in> set is. s < length (species stp)"
  shows "(\<forall>s \<in> set is. settled_species stp' s) \<and>
         (\<forall>j. settled_species stp j \<longrightarrow> settled_species stp' j) \<and>
         (\<forall>j. settled_character stp j \<longrightarrow> settled_character stp' j) \<and>
         length (species stp') = length (species stp) \<and>
         characters stp' = characters stp \<and>
         num_species_orig stp' = num_species_orig stp \<and>
         num_characters_orig stp' = num_characters_orig stp"
  using assms
proof (induction "is" arbitrary: stp)
  case Nil
  then show ?case by simp
next
  case (Cons i "is")
  from Cons.prems(1) obtain stp1 where
    step: "cleanup_species_step i stp = Inr stp1" and
    rest: "for_each cleanup_species_step is stp1 = Inr stp'"
    by (auto simp: bind_res_eq_Inr)
  have i: "i < length (species stp)" using Cons.prems(2) by simp
  note r1 = species_step_result [OF step i]
  have "\<forall>s \<in> set is. s < length (species stp1)" using Cons.prems(2) r1 by simp
  note r2 = Cons.IH [OF rest this]
  show ?case using r1 r2 by auto
qed

lemma character_loop_result:
  assumes "for_each cleanup_character_step is stp = Inr stp'"
    and "\<forall>c \<in> set is. c < length (characters stp)"
  shows "(\<forall>c \<in> set is. settled_character stp' c) \<and>
         (\<forall>j. settled_character stp j \<longrightarrow> settled_character stp' j) \<and>
         (\<forall>j. settled_species stp j \<longrightarrow> settled_species stp' j) \<and>
         length (characters stp') = length (characters stp) \<and>
         num_species_orig stp' = num_species_orig stp \<and>
         num_characters_orig stp' = num_characters_orig stp"
  using assms
proof (induction "is" arbitrary: stp)
  case Nil
  then show ?case by simp
next
  case (Cons i "is")
  from Cons.prems(1) obtain stp1 where
    step: "cleanup_character_step i stp = Inr stp1" and
    rest: "for_each cleanup_character_step is stp1 = Inr stp'"
    by (auto simp: bind_res_eq_Inr)
  have i: "i < length (characters stp)" using Cons.prems(2) by simp
  note r1 = character_step_result [OF step i]
  have "\<forall>c \<in> set is. c < length (characters stp1)" using Cons.prems(2) r1 by simp
  note r2 = Cons.IH [OF rest this]
  show ?case using r1 r2 by auto
qed

lemma cleanup_settles:
  assumes "cleanup stp = Inr stp'"
    and "length (species stp) = unat (num_species_orig stp)"
    and "length (characters stp) = unat (num_characters_orig stp)"
  shows "cleanup stp' = Inr stp'"
proof -
  from assms(1) obtain stp1 where
    sp: "for_each cleanup_species_step [0..<unat (num_species_orig stp)] stp = Inr stp1" and
    ch: "for_each cleanup_character_step [0..<unat (num_characters_orig stp1)] stp1 = Inr stp'"
    by (auto simp: cleanup_def bind_res_eq_Inr)
  have "\<forall>s \<in> set [0..<unat (num_species_orig stp)]. s < length (species stp)"
    using assms(2) by simp
  note r1 = species_loop_result [OF sp this]
  have "\<forall>c \<in> set [0..<unat (num_characters_orig stp1)]. c < length (characters stp1)"
    using assms(3) r1 by simp
  note r2 = character_loop_result [OF ch this]
  have "for_each cleanup_species_step [0..<unat (num_species_orig stp')] stp' = Inr stp'"
    using r1 r2 by (intro species_loop_settled) simp
  moreover
  have "for_each cleanup_character_step [0..<unat (num_characters_orig stp')] stp' = Inr stp'"
    using r2 by (intro character_loop_settled) simp
  ultimately show ?thesis by (simp add: cleanup_def)
qed

section \<open>Counting active cells\<close>

lemma cnt_le: "cnt P xs k \<le> k"
  unfolding cnt_def using length_filter_le [of _ "[0..<k]"] by simp

lemma count_cells_cnt: "count_cells P xs k = of_nat (cnt P xs k)"
  by (induction k) (simp_all add: count_cells_def cnt_def)

lemma cnt_card: "cnt P xs k = card {i. i < k \<and> P (xs ! i)}"
  by (simp add: cnt_def length_filter_conv_card cong: conj_cong)

lemma cnt_update_drop:
  assumes "s < k" "s < length xs" "P (xs ! s)" "\<not> P z"
  shows "Suc (cnt P (xs[s := z]) k) = cnt P xs k"
proof -
  have "{i. i < k \<and> P (xs ! i)} = insert s {i. i < k \<and> P (xs[s := z] ! i)}"
    using assms by (auto simp: nth_list_update)
  moreover have "s \<notin> {i. i < k \<and> P (xs[s := z] ! i)}" using assms by simp
  ultimately show ?thesis by (simp add: cnt_card)
qed

lemma cnt_update_keep:
  assumes "s < length xs" "P (xs ! s)" "P z"
  shows "cnt P (xs[s := z]) k = cnt P xs k"
proof -
  have "{i. i < k \<and> P (xs ! i)} = {i. i < k \<and> P (xs[s := z] ! i)}"
    using assms by (auto simp: nth_list_update)
  then show ?thesis by (simp add: cnt_card)
qed

lemma unat_max_u32: "unat (- 1 :: u32) = 4294967295"
  by (simp add: unsigned_minus_1_eq_mask mask_eq_exp_minus_1)

lemma of_nat_u32_neq_max:
  assumes "a \<le> unat (n :: u32)"
  shows "(of_nat a :: u32) \<noteq> - 1 \<longleftrightarrow> a < 2 ^ 32 - 1"
proof -
  have "unat (of_nat a :: u32) = a" using assms by (rule le_unat_uoi)
  then have "(of_nat a :: u32) = - 1 \<longleftrightarrow> a = 4294967295"
    by (metis unat_max_u32 word_unat_eq_iff)
  moreover have "unat n < 4294967296" using unsigned_less [of n, where 'a = nat] by simp
  ultimately show ?thesis using assms by auto
qed

lemma of_nat_u32_le:
  assumes "a \<le> unat (n :: u32)"
  shows "(of_nat a :: u32) \<le> n"
  using assms by (simp add: word_le_nat_alt le_unat_uoi [OF assms])

lemma of_nat_u32_eq:
  assumes "a \<le> unat (n :: u32)" "b \<le> unat n"
  shows "(of_nat a :: u32) = of_nat b \<longleftrightarrow> a = b"
  using le_unat_uoi [OF assms(1)] le_unat_uoi [OF assms(2)] by metis

lemma check_state_counts:
  "check_state stp = 0 \<longleftrightarrow>
     num_species stp = of_nat (cnt (\<lambda>w. w \<noteq> 0) (species stp) (unat (num_species_orig stp))) \<and>
     cnt (\<lambda>w. w \<noteq> 0) (species stp) (unat (num_species_orig stp)) < 2 ^ 32 - 1 \<and>
     num_characters stp
       = of_nat (cnt (\<lambda>w. w \<noteq> 0) (characters stp) (unat (num_characters_orig stp))) \<and>
     cnt (\<lambda>w. w \<noteq> 0) (characters stp) (unat (num_characters_orig stp)) < 2 ^ 32 - 1 \<and>
     cnt (\<lambda>w. w \<noteq> - 1) (current_states stp) (unat (num_characters_orig stp))
       = cnt (\<lambda>w. w \<noteq> 0) (characters stp) (unat (num_characters_orig stp))"
  (is "_ \<longleftrightarrow> _ = of_nat ?a \<and> _ \<and> _ = of_nat ?b \<and> _ \<and> ?c = _")
proof -
  have a: "?a \<le> unat (num_species_orig stp)" by (rule cnt_le)
  have b: "?b \<le> unat (num_characters_orig stp)" by (rule cnt_le)
  have c: "?c \<le> unat (num_characters_orig stp)" by (rule cnt_le)
  show ?thesis
    unfolding check_state_eq_0 count_cells_cnt
    using of_nat_u32_neq_max [OF a] of_nat_u32_neq_max [OF b] of_nat_u32_le [OF a]
      of_nat_u32_le [OF b] of_nat_u32_eq [OF c b]
    by auto
qed

section \<open>Deleting keeps a state consistent\<close>

lemma active_consistentD:
  "active_consistent stp \<Longrightarrow> c < unat (num_characters_orig stp) \<Longrightarrow> characters stp ! c \<noteq> 0
     \<Longrightarrow> current_states stp ! c \<noteq> - 1"
  by (auto simp: active_consistent_def list_all_iff)

lemma char_vertex_wf:
  assumes "well_formed stp" "c < unat (num_characters_orig stp)"
  shows "char_vertex stp (of_nat c) = unat (num_species_orig stp) + c"
proof -
  have c: "unat (of_nat c :: u32) = c" using assms(2) by (rule le_unat_uoi [OF less_imp_le])
  have "unat (num_species_orig stp) + unat (of_nat c :: u32) < 2 ^ LENGTH(32)"
    using assms by (simp add: well_formed_def c)
  then show ?thesis unfolding char_vertex_def by (simp add: unat_add_lem [THEN iffD1] c)
qed

lemma check_state_frame [simp]:
  "check_state (stp\<lparr>red_black := g\<rparr>) = check_state stp"
  "check_state (stp\<lparr>conflict := g\<rparr>) = check_state stp"
  "check_state (stp\<lparr>operation := w\<rparr>) = check_state stp"
  "check_state (stp\<lparr>realize := w\<rparr>) = check_state stp"
  "check_state (stp\<lparr>colors := cs\<rparr>) = check_state stp"
  "check_state (stp\<lparr>tried_characters := l\<rparr>) = check_state stp"
  "check_state (stp\<lparr>character_queue := l\<rparr>) = check_state stp"
  "check_state (stp\<lparr>matrix := mx\<rparr>) = check_state stp"
  by (simp_all add: check_state_def)

lemma delete_species_ok:
  assumes "state_ok stp" "s < unat (num_species_orig stp)" "species stp ! s \<noteq> 0"
  shows "delete_species stp s
           = Inr (stp\<lparr>species := (species stp)[s := 0], num_species := num_species stp - 1\<rparr>)"
    and "state_ok (stp\<lparr>species := (species stp)[s := 0], num_species := num_species stp - 1\<rparr>)"
proof -
  show "delete_species stp s
           = Inr (stp\<lparr>species := (species stp)[s := 0], num_species := num_species stp - 1\<rparr>)"
    using assms by (simp add: delete_species_def word_neq_0_conv)
  have len: "s < length (species stp)" using assms by (simp add: state_ok_def well_formed_def)
  note u = cnt_update_drop [of s "unat (num_species_orig stp)" "species stp" "\<lambda>w. w \<noteq> 0" 0,
      OF assms(2) len assms(3), simplified]
  show "state_ok (stp\<lparr>species := (species stp)[s := 0], num_species := num_species stp - 1\<rparr>)"
    using assms(1) u [symmetric]
    by (simp add: state_ok_def well_formed_def active_consistent_def check_state_counts)
qed

lemma delete_character_ok:
  assumes "state_ok stp" "c < unat (num_characters_orig stp)" "characters stp ! c \<noteq> 0"
  shows "delete_character stp c
           = Inr (stp\<lparr>characters := (characters stp)[c := 0],
                      current_states := (current_states stp)[c := - 1],
                      num_characters := num_characters stp - 1\<rparr>)"
    and "state_ok (stp\<lparr>characters := (characters stp)[c := 0],
                      current_states := (current_states stp)[c := - 1],
                      num_characters := num_characters stp - 1\<rparr>)"
proof -
  have cs: "current_states stp ! c \<noteq> - 1"
    using assms by (auto simp: state_ok_def dest: active_consistentD)
  show "delete_character stp c
           = Inr (stp\<lparr>characters := (characters stp)[c := 0],
                      current_states := (current_states stp)[c := - 1],
                      num_characters := num_characters stp - 1\<rparr>)"
    using assms cs by (simp add: delete_character_def word_neq_0_conv)
  have len: "c < length (characters stp)" "c < length (current_states stp)"
    using assms by (simp_all add: state_ok_def well_formed_def)
  note u1 = cnt_update_drop [of c "unat (num_characters_orig stp)" "characters stp"
      "\<lambda>w. w \<noteq> 0" 0, OF assms(2) len(1) assms(3), simplified]
  note u2 = cnt_update_drop [of c "unat (num_characters_orig stp)" "current_states stp"
      "\<lambda>w. w \<noteq> - 1" "- 1", OF assms(2) len(2) cs, simplified]
  show "state_ok (stp\<lparr>characters := (characters stp)[c := 0],
                      current_states := (current_states stp)[c := - 1],
                      num_characters := num_characters stp - 1\<rparr>)"
    using assms(1,2) u1 [symmetric] u2 [symmetric]
    by (auto simp: state_ok_def well_formed_def active_consistent_def check_state_counts
          list_all_iff nth_list_update)
qed

section \<open>Cleanup on a consistent state\<close>

lemma species_step_ok:
  assumes "state_ok stp" "s < unat (num_species_orig stp)"
  shows "cleanup_species_step s stp
           = Inr (if null_species stp s
                  then stp\<lparr>species := (species stp)[s := 0], num_species := num_species stp - 1\<rparr>
                  else stp)"
proof -
  have "s < vcount (red_black stp)" using assms by (simp add: state_ok_def well_formed_def)
  then show ?thesis
    using delete_species_ok(1) [OF assms]
    by (simp add: cleanup_species_step_def igraph_es_size_incident_def null_species_def)
qed

lemma character_step_ok:
  assumes "state_ok stp" "c < unat (num_characters_orig stp)"
  shows "cleanup_character_step c stp
           = Inr (if null_character stp c
                  then stp\<lparr>characters := (characters stp)[c := 0],
                            current_states := (current_states stp)[c := - 1],
                            num_characters := num_characters stp - 1\<rparr>
                  else stp)"
proof -
  have "char_vertex stp (of_nat c) < vcount (red_black stp)"
    using assms char_vertex_wf [of stp c] by (simp add: state_ok_def well_formed_def)
  then show ?thesis
    using delete_character_ok(1) [OF assms]
    by (simp add: cleanup_character_step_def igraph_es_size_incident_def null_character_def)
qed

lemma species_loop_ok:
  assumes "state_ok stp" "\<forall>s \<in> set is. s < unat (num_species_orig stp)" "distinct is"
  shows "\<exists>sp n. for_each cleanup_species_step is stp = Inr (stp\<lparr>species := sp, num_species := n\<rparr>) \<and>
           state_ok (stp\<lparr>species := sp, num_species := n\<rparr>) \<and>
           (\<forall>j. sp ! j = (if j \<in> set is \<and> null_species stp j then 0 else species stp ! j)) \<and>
           n = num_species stp - of_nat (length (filter (null_species stp) is))"
  using assms
proof (induction "is" arbitrary: stp)
  case Nil
  show ?case
    by (rule exI [of _ "species stp"], rule exI [of _ "num_species stp"]) (simp add: Nil)
next
  case (Cons i "is")
  define stp1 where "stp1 = (if null_species stp i
                  then stp\<lparr>species := (species stp)[i := 0], num_species := num_species stp - 1\<rparr>
                  else stp)"
  have i: "i < unat (num_species_orig stp)" using Cons.prems by simp
  have step: "cleanup_species_step i stp = Inr stp1"
    unfolding stp1_def by (rule species_step_ok [OF Cons.prems(1) i])
  have ok1: "state_ok stp1"
    using delete_species_ok(2) [OF Cons.prems(1) i] Cons.prems(1)
    by (simp add: stp1_def null_species_def)
  have same: "num_species_orig stp1 = num_species_orig stp" "red_black stp1 = red_black stp"
    by (simp_all add: stp1_def)
  have len: "i < length (species stp)"
    using i Cons.prems(1) by (simp add: state_ok_def well_formed_def)
  have nth1: "species stp1 ! j = (if j = i \<and> null_species stp i then 0 else species stp ! j)" for j
    using len by (simp add: stp1_def nth_list_update)
  have null1: "null_species stp1 j \<longleftrightarrow> null_species stp j" if "j \<noteq> i" for j
    using that by (simp add: null_species_def nth1 same)
  have "\<forall>s \<in> set is. s < unat (num_species_orig stp1)" using Cons.prems(2) same by simp
  moreover have "distinct is" using Cons.prems(3) by simp
  ultimately obtain sp n where
    r: "for_each cleanup_species_step is stp1 = Inr (stp1\<lparr>species := sp, num_species := n\<rparr>)"
       "state_ok (stp1\<lparr>species := sp, num_species := n\<rparr>)"
       "\<forall>j. sp ! j = (if j \<in> set is \<and> null_species stp1 j then 0 else species stp1 ! j)"
       "n = num_species stp1 - of_nat (length (filter (null_species stp1) is))"
    using Cons.IH [OF ok1] by blast
  have upd: "stp1\<lparr>species := sp, num_species := n\<rparr> = stp\<lparr>species := sp, num_species := n\<rparr>"
    by (simp add: stp1_def)
  have notin: "i \<notin> set is" using Cons.prems(3) by simp
  have filt: "filter (null_species stp1) is = filter (null_species stp) is"
  proof (rule filter_cong [OF refl])
    fix j assume "j \<in> set is"
    then have "j \<noteq> i" using notin by auto
    then show "null_species stp1 j = null_species stp j" by (rule null1)
  qed
  have "for_each cleanup_species_step (i # is) stp = Inr (stp\<lparr>species := sp, num_species := n\<rparr>)"
    using step r(1) upd by simp
  moreover have "state_ok (stp\<lparr>species := sp, num_species := n\<rparr>)" using r(2) upd by simp
  moreover have "sp ! j = (if j \<in> set (i # is) \<and> null_species stp j then 0 else species stp ! j)"
    for j
  proof (cases "j = i")
    case True
    then show ?thesis using r(3) notin nth1 by simp
  next
    case False
    then show ?thesis using r(3) null1 nth1 by simp
  qed
  moreover have "n = num_species stp - of_nat (length (filter (null_species stp) (i # is)))"
    using r(4) filt by (simp add: stp1_def)
  ultimately show ?case by blast
qed

lemma character_loop_ok:
  assumes "state_ok stp" "\<forall>c \<in> set is. c < unat (num_characters_orig stp)" "distinct is"
  shows "\<exists>ch cs m. for_each cleanup_character_step is stp
             = Inr (stp\<lparr>characters := ch, current_states := cs, num_characters := m\<rparr>) \<and>
           state_ok (stp\<lparr>characters := ch, current_states := cs, num_characters := m\<rparr>) \<and>
           (\<forall>j. ch ! j = (if j \<in> set is \<and> null_character stp j then 0 else characters stp ! j)) \<and>
           (\<forall>j. cs ! j = (if j \<in> set is \<and> null_character stp j then - 1
                          else current_states stp ! j)) \<and>
           m = num_characters stp - of_nat (length (filter (null_character stp) is))"
  using assms
proof (induction "is" arbitrary: stp)
  case Nil
  show ?case
    by (rule exI [of _ "characters stp"], rule exI [of _ "current_states stp"],
        rule exI [of _ "num_characters stp"]) (simp add: Nil)
next
  case (Cons i "is")
  define stp1 where "stp1 = (if null_character stp i
                  then stp\<lparr>characters := (characters stp)[i := 0],
                            current_states := (current_states stp)[i := - 1],
                            num_characters := num_characters stp - 1\<rparr>
                  else stp)"
  have i: "i < unat (num_characters_orig stp)" using Cons.prems by simp
  have step: "cleanup_character_step i stp = Inr stp1"
    unfolding stp1_def by (rule character_step_ok [OF Cons.prems(1) i])
  have ok1: "state_ok stp1"
    using delete_character_ok(2) [OF Cons.prems(1) i] Cons.prems(1)
    by (simp add: stp1_def null_character_def)
  have same: "num_characters_orig stp1 = num_characters_orig stp"
    "num_species_orig stp1 = num_species_orig stp" "red_black stp1 = red_black stp"
    by (simp_all add: stp1_def)
  have len: "i < length (characters stp)" "i < length (current_states stp)"
    using i Cons.prems(1) by (simp_all add: state_ok_def well_formed_def)
  have nth1:
    "characters stp1 ! j = (if j = i \<and> null_character stp i then 0 else characters stp ! j)"
    "current_states stp1 ! j
       = (if j = i \<and> null_character stp i then - 1 else current_states stp ! j)" for j
    using len by (simp_all add: stp1_def nth_list_update)
  have null1: "null_character stp1 j \<longleftrightarrow> null_character stp j" if "j \<noteq> i" for j
    using that by (simp add: null_character_def nth1 same char_vertex_def)
  have "\<forall>c \<in> set is. c < unat (num_characters_orig stp1)" using Cons.prems(2) same by simp
  moreover have "distinct is" using Cons.prems(3) by simp
  ultimately obtain ch cs m where
    r: "for_each cleanup_character_step is stp1
          = Inr (stp1\<lparr>characters := ch, current_states := cs, num_characters := m\<rparr>)"
       "state_ok (stp1\<lparr>characters := ch, current_states := cs, num_characters := m\<rparr>)"
       "\<forall>j. ch ! j = (if j \<in> set is \<and> null_character stp1 j then 0 else characters stp1 ! j)"
       "\<forall>j. cs ! j = (if j \<in> set is \<and> null_character stp1 j then - 1
                      else current_states stp1 ! j)"
       "m = num_characters stp1 - of_nat (length (filter (null_character stp1) is))"
    using Cons.IH [OF ok1] by blast
  have upd: "stp1\<lparr>characters := ch, current_states := cs, num_characters := m\<rparr>
               = stp\<lparr>characters := ch, current_states := cs, num_characters := m\<rparr>"
    by (simp add: stp1_def)
  have notin: "i \<notin> set is" using Cons.prems(3) by simp
  have filt: "filter (null_character stp1) is = filter (null_character stp) is"
  proof (rule filter_cong [OF refl])
    fix j assume "j \<in> set is"
    then have "j \<noteq> i" using notin by auto
    then show "null_character stp1 j = null_character stp j" by (rule null1)
  qed
  have "for_each cleanup_character_step (i # is) stp
          = Inr (stp\<lparr>characters := ch, current_states := cs, num_characters := m\<rparr>)"
    using step r(1) upd by simp
  moreover have "state_ok (stp\<lparr>characters := ch, current_states := cs, num_characters := m\<rparr>)"
    using r(2) upd by simp
  moreover have "ch ! j = (if j \<in> set (i # is) \<and> null_character stp j then 0
                               else characters stp ! j)" for j
  proof (cases "j = i")
    case True
    then show ?thesis using r(3) notin nth1(1) by simp
  next
    case False
    then show ?thesis using r(3) null1 nth1(1) by simp
  qed
  moreover have "cs ! j = (if j \<in> set (i # is) \<and> null_character stp j then - 1
                               else current_states stp ! j)" for j
  proof (cases "j = i")
    case True
    then show ?thesis using r(4) notin nth1(2) by simp
  next
    case False
    then show ?thesis using r(4) null1 nth1(2) by simp
  qed
  moreover have "m = num_characters stp - of_nat (length (filter (null_character stp) (i # is)))"
    using r(5) filt by (simp add: stp1_def)
  ultimately show ?case by blast
qed

lemma cleanup_ok:
  assumes "state_ok stp"
  shows "\<exists>sp n ch cs m.
           cleanup stp = Inr (stp\<lparr>species := sp, num_species := n, characters := ch,
                                  current_states := cs, num_characters := m\<rparr>) \<and>
           state_ok (stp\<lparr>species := sp, num_species := n, characters := ch,
                         current_states := cs, num_characters := m\<rparr>) \<and>
           (\<forall>j < unat (num_species_orig stp).
              sp ! j = (if null_species stp j then 0 else species stp ! j)) \<and>
           (\<forall>j < unat (num_characters_orig stp).
              ch ! j = (if null_character stp j then 0 else characters stp ! j)) \<and>
           (\<forall>j < unat (num_characters_orig stp).
              cs ! j = (if null_character stp j then - 1 else current_states stp ! j)) \<and>
           n = num_species stp
                 - of_nat (length (filter (null_species stp) [0..<unat (num_species_orig stp)])) \<and>
           m = num_characters stp
                 - of_nat (length (filter (null_character stp)
                     [0..<unat (num_characters_orig stp)]))"
proof -
  obtain sp n where
    s: "for_each cleanup_species_step [0..<unat (num_species_orig stp)] stp
          = Inr (stp\<lparr>species := sp, num_species := n\<rparr>)"
       "state_ok (stp\<lparr>species := sp, num_species := n\<rparr>)"
       "\<forall>j. sp ! j = (if j \<in> set [0..<unat (num_species_orig stp)] \<and> null_species stp j then 0
                      else species stp ! j)"
       "n = num_species stp
              - of_nat (length (filter (null_species stp) [0..<unat (num_species_orig stp)]))"
    using species_loop_ok [OF assms, of "[0..<unat (num_species_orig stp)]"] by auto
  define stp1 where "stp1 = stp\<lparr>species := sp, num_species := n\<rparr>"
  have null1: "null_character stp1 j \<longleftrightarrow> null_character stp j" for j
    by (simp add: null_character_def stp1_def char_vertex_def)
  obtain ch cs m where
    c: "for_each cleanup_character_step [0..<unat (num_characters_orig stp1)] stp1
          = Inr (stp1\<lparr>characters := ch, current_states := cs, num_characters := m\<rparr>)"
       "state_ok (stp1\<lparr>characters := ch, current_states := cs, num_characters := m\<rparr>)"
       "\<forall>j. ch ! j = (if j \<in> set [0..<unat (num_characters_orig stp1)] \<and> null_character stp1 j
                      then 0 else characters stp1 ! j)"
       "\<forall>j. cs ! j = (if j \<in> set [0..<unat (num_characters_orig stp1)] \<and> null_character stp1 j
                      then - 1 else current_states stp1 ! j)"
       "m = num_characters stp1
              - of_nat (length (filter (null_character stp1)
                  [0..<unat (num_characters_orig stp1)]))"
    using species_loop_ok character_loop_ok [OF s(2) [folded stp1_def],
        of "[0..<unat (num_characters_orig stp1)]"] by auto
  have "cleanup stp = Inr (stp\<lparr>species := sp, num_species := n, characters := ch,
                                  current_states := cs, num_characters := m\<rparr>)"
    using s(1) c(1) by (simp add: cleanup_def stp1_def)
  moreover have "state_ok (stp\<lparr>species := sp, num_species := n, characters := ch,
                         current_states := cs, num_characters := m\<rparr>)"
    using c(2) by (simp add: stp1_def)
  moreover have "\<forall>j < unat (num_species_orig stp).
              sp ! j = (if null_species stp j then 0 else species stp ! j)"
    using s(3) by simp
  moreover have "\<forall>j < unat (num_characters_orig stp).
              ch ! j = (if null_character stp j then 0 else characters stp ! j)"
    using c(3) by (simp add: null1) (simp add: stp1_def)
  moreover have "\<forall>j < unat (num_characters_orig stp).
              cs ! j = (if null_character stp j then - 1 else current_states stp ! j)"
    using c(4) by (simp add: null1) (simp add: stp1_def)
  moreover have "m = num_characters stp
                 - of_nat (length (filter (null_character stp)
                     [0..<unat (num_characters_orig stp)]))"
    using c(5) by (simp add: null1 [abs_def]) (simp add: stp1_def)
  ultimately show ?thesis using s(4) by blast
qed

section \<open>Copying a state\<close>

lemma copy_cells_all: "length xs = k \<Longrightarrow> copy_cells xs k = xs"
  by (auto simp: copy_cells_def intro: map_nth)

lemma cells_differ_same [simp]: "\<not> cells_differ xs xs k"
  by (simp add: cells_differ_def list_ex_iff)

lemma state_cmp_frame [simp]:
  "state_cmp (stp\<lparr>tried_characters := l\<rparr>) stp2 = state_cmp stp stp2"
  "state_cmp (stp\<lparr>character_queue := l\<rparr>) stp2 = state_cmp stp stp2"
  "state_cmp stp1 (stp\<lparr>tried_characters := l\<rparr>) = state_cmp stp1 stp"
  "state_cmp stp1 (stp\<lparr>character_queue := l\<rparr>) = state_cmp stp1 stp"
  by (simp_all add: state_cmp_def)

lemma state_cmp_same [simp]: "state_cmp stp stp = 0"
  by (simp add: state_cmp_eq_0)

lemma copy_state_wf:
  assumes "well_formed src" "check_state src = 0"
  shows "copy_state dst0 src = Inr (src\<lparr>tried_characters := [], character_queue := []\<rparr>)"
proof -
  have eq: "(init_state dst0 (num_species_orig src) (num_characters_orig src))
              \<lparr>realize := realize src,
               tried_characters := [],
               character_queue := [],
               num_species := num_species src,
               num_characters := num_characters src,
               red_black := red_black src,
               conflict := conflict src,
               matrix := matrix src,
               current_states := copy_cells (current_states src) (unat (num_characters_orig src)),
               characters := copy_cells (characters src) (unat (num_characters_orig src)),
               colors := copy_cells (colors src) (unat (num_characters_orig src)),
               species := copy_cells (species src) (unat (num_species_orig src)),
               operation := operation src\<rparr>
            = src\<lparr>tried_characters := [], character_queue := []\<rparr>"
    using assms(1) by (cases src, cases dst0) (simp add: init_state_def well_formed_def copy_cells_all)
  show ?thesis
    unfolding copy_state_def eq Let_def using assms(2) by simp
qed

section \<open>The three outcomes of a realization\<close>

lemma igraph_delete_incident_valid:
  "v < vcount g \<Longrightarrow> igraph_delete_incident g v = Inr (without_incident g v)"
  by (simp add: igraph_delete_incident_def without_incident_def)

lemma not_adjacent_speciesD:
  assumes "not_adjacent_species g n v = Inr D"
  shows "v < vcount g" and "\<forall>d \<in> set D. d < n \<and> d \<noteq> v"
  using assms
  by (auto simp: not_adjacent_species_def igraph_subcomponent_def igraph_neighbors_def
        bind_res_eq_Inr split: if_splits)

lemma colours_distinct [simp]: "BLACK \<noteq> RED" "RED \<noteq> BLACK" "REMOVED \<noteq> RED" "REMOVED \<noteq> BLACK"
  by (simp_all add: BLACK_def RED_def REMOVED_def)

lemma realize_reject:
  assumes wf: "well_formed src" and chk: "check_state src = 0"
    and red: "colors src ! unat (realize src) = RED"
    and D: "not_adjacent_species (red_black src) (unat (num_species_orig src))
              (char_vertex src (realize src)) = Inr D"
    and ne: "D \<noteq> []"
  shows "realize_character dst0 src
           = Inr (False, src\<lparr>tried_characters := [], character_queue := [],
                       red_black := without_incident (red_black src)
                                      (char_vertex src (realize src)),
                       operation := 0\<rparr>)"
proof -
  note v = not_adjacent_speciesD(1) [OF D]
  show ?thesis
    unfolding realize_character_def
    by (simp add: copy_state_wf [OF wf chk] chk D red ne Let_def
          igraph_delete_incident_valid [OF v])
qed

lemma state_ok_frame [simp]:
  "state_ok (stp\<lparr>operation := w\<rparr>) = state_ok stp"
  "state_ok (stp\<lparr>realize := w\<rparr>) = state_ok stp"
  "state_ok (stp\<lparr>tried_characters := l\<rparr>) = state_ok stp"
  "state_ok (stp\<lparr>character_queue := l\<rparr>) = state_ok stp"
  "state_ok (stp\<lparr>colors := (colors stp)[i := col]\<rparr>) = state_ok stp"
  "state_ok (stp\<lparr>red_black := without_incident (red_black stp) v\<rparr>) = state_ok stp"
  "state_ok (stp\<lparr>red_black := (red_black stp)\<lparr>edgelist := es\<rparr>\<rparr>) = state_ok stp"
  by (simp_all add: state_ok_def well_formed_def active_consistent_def without_incident_def)

lemma adjacent_ends_without_incident [simp]:
  "adjacent_ends (without_incident g v) v = []"
  by (auto simp: adjacent_ends_def without_incident_def incident_def)

lemma adjacent_ends_new_red:
  assumes "\<forall>d \<in> set D. d \<noteq> v"
  shows "adjacent_ends (g\<lparr>edgelist := edgelist (without_incident g v) @ map (Pair v) D\<rparr>) v = D"
proof -
  have "concat (map (\<lambda>e. (if fst e = v then [snd e] else []) @ (if snd e = v then [fst e] else []))
          (map (Pair v) D)) = D"
    using assms by (induction D) auto
  then show ?thesis
    using adjacent_ends_without_incident [of g v] by (simp add: adjacent_ends_def)
qed

lemma set_current_state_ok:
  assumes "state_ok stp" "current_states stp ! c \<noteq> - 1" "w \<noteq> - 1"
    "c < unat (num_characters_orig stp)"
  shows "state_ok (stp\<lparr>current_states := (current_states stp)[c := w]\<rparr>)"
proof -
  have len: "c < length (current_states stp)"
    using assms by (simp add: state_ok_def well_formed_def)
  note u = cnt_update_keep [of c "current_states stp" "\<lambda>w. w \<noteq> - 1" w
      "unat (num_characters_orig stp)", OF len assms(2,3)]
  show ?thesis
    using assms u
    by (auto simp: state_ok_def well_formed_def active_consistent_def check_state_counts
          list_all_iff nth_list_update)
qed

lemma realize_black_accept:
  assumes ok: "state_ok src"
    and r: "unat (realize src) < unat (num_characters_orig src)"
    and black: "colors src ! unat (realize src) = BLACK"
    and cur: "current_states src ! unat (realize src) \<noteq> - 1"
    and D: "not_adjacent_species (red_black src) (unat (num_species_orig src))
              (char_vertex src (realize src)) = Inr D"
  shows "\<exists>sp n ch cs m.
           realize_character dst0 src
             = Inr (True, src\<lparr>tried_characters := [], character_queue := [],
                     red_black := (red_black src)
                       \<lparr>edgelist := edgelist (without_incident (red_black src)
                                      (char_vertex src (realize src)))
                                    @ map (Pair (char_vertex src (realize src))) D\<rparr>,
                     operation := 1,
                     colors := (colors src)[unat (realize src) := RED],
                     species := sp, num_species := n, characters := ch,
                     current_states := cs, num_characters := m\<rparr>) \<and>
           cs ! unat (realize src)
             = (if characters src ! unat (realize src) \<noteq> 0 \<and> D = [] then - 1 else 1)"
proof -
  define v where "v = char_vertex src (realize src)"
  define c where "c = unat (realize src)"
  have wf: "well_formed src" and chk: "check_state src = 0"
    using ok by (simp_all add: state_ok_def)
  note vv = not_adjacent_speciesD [OF D, folded v_def]
  have n0: "unat (num_species_orig src) \<le> vcount (red_black src)"
    using wf by (simp add: well_formed_def)
  have valid: "list_all (valid_edge (without_incident (red_black src) v)) (map (Pair v) D)"
    using vv n0 by (auto simp: list_all_iff valid_edge_def without_incident_def)
  define dst4 where "dst4 = src\<lparr>tried_characters := [], character_queue := [],
                     red_black := (red_black src)
                       \<lparr>edgelist := edgelist (without_incident (red_black src) v) @ map (Pair v) D\<rparr>,
                     operation := 1,
                     colors := (colors src)[c := RED],
                     current_states := (current_states src)[c := 1]\<rparr>"
  have "state_ok dst4 = state_ok (src\<lparr>current_states := (current_states src)[c := 1]\<rparr>)"
    by (simp add: dst4_def state_ok_def well_formed_def active_consistent_def check_state_def
          without_incident_def)
  then have ok4: "state_ok dst4"
    using set_current_state_ok [OF ok cur, of 1] r by (simp add: c_def)
  obtain sp n ch cs m where
    cl: "cleanup dst4 = Inr (dst4\<lparr>species := sp, num_species := n, characters := ch,
                                  current_states := cs, num_characters := m\<rparr>)"
        "state_ok (dst4\<lparr>species := sp, num_species := n, characters := ch,
                         current_states := cs, num_characters := m\<rparr>)"
        "\<forall>j < unat (num_characters_orig dst4).
              cs ! j = (if null_character dst4 j then - 1 else current_states dst4 ! j)"
    using cleanup_ok [OF ok4] by blast
  have len: "c < length (current_states src)"
    using r wf by (simp add: c_def well_formed_def)
  have cv: "char_vertex dst4 (of_nat c) = v"
    by (simp add: char_vertex_def dst4_def v_def c_def)
  have nc: "null_character dst4 c \<longleftrightarrow> characters src ! c \<noteq> 0 \<and> D = []"
    unfolding null_character_def cv using adjacent_ends_new_red [of D v "red_black src"] vv(2)
    by (simp add: dst4_def)
  have cur4: "current_states dst4 ! c = 1" using len by (simp add: dst4_def)
  have "c < unat (num_characters_orig dst4)" using r by (simp add: dst4_def c_def)
  then have "cs ! c = (if null_character dst4 c then - 1 else current_states dst4 ! c)"
    using cl(3) by blast
  then have cs: "cs ! c = (if characters src ! c \<noteq> 0 \<and> D = [] then - 1 else 1)"
    by (simp only: nc cur4)
  have "realize_character dst0 src
          = Inr (True, dst4\<lparr>species := sp, num_species := n, characters := ch,
                                  current_states := cs, num_characters := m\<rparr>)"
    unfolding realize_character_def
    using cl(1) cl(2) ok4 valid
    by (simp add: copy_state_wf [OF wf chk] chk D [folded v_def] black [folded c_def] Let_def
          v_def [symmetric] c_def [symmetric] igraph_delete_incident_valid [OF vv(1)]
          realize_black_def igraph_add_edges_def without_incident_def dst4_def state_ok_def)
  then show ?thesis
    using cs unfolding dst4_def v_def c_def
    by (intro exI [of _ sp] exI [of _ n] exI [of _ ch] exI [of _ cs] exI [of _ m]) simp
qed

lemma realize_red_remove:
  assumes ok: "state_ok src"
    and r: "unat (realize src) < unat (num_characters_orig src)"
    and red: "colors src ! unat (realize src) = RED"
    and act: "characters src ! unat (realize src) \<noteq> 0"
    and D: "not_adjacent_species (red_black src) (unat (num_species_orig src))
              (char_vertex src (realize src)) = Inr []"
  shows "\<exists>sp n ch cs m.
           realize_character dst0 src
             = Inr (True, src\<lparr>tried_characters := [], character_queue := [],
                     red_black := without_incident (red_black src)
                                    (char_vertex src (realize src)),
                     operation := 2,
                     colors := (colors src)[unat (realize src) := REMOVED],
                     species := sp, num_species := n, characters := ch,
                     current_states := cs, num_characters := m\<rparr>) \<and>
           ch ! unat (realize src) = 0 \<and> cs ! unat (realize src) = - 1 \<and>
           m = num_characters src - 1
                 - of_nat (length (filter
                     (null_character
                        (src\<lparr>red_black := without_incident (red_black src)
                                              (char_vertex src (realize src)),
                              characters := (characters src)[unat (realize src) := 0]\<rparr>))
                     [0..<unat (num_characters_orig src)]))"
proof -
  define v where "v = char_vertex src (realize src)"
  define c where "c = unat (realize src)"
  have wf: "well_formed src" and chk: "check_state src = 0"
    using ok by (simp_all add: state_ok_def)
  note vv = not_adjacent_speciesD [OF D, folded v_def]
  define dst2 where "dst2 = src\<lparr>tried_characters := [], character_queue := [],
                     red_black := without_incident (red_black src) v,
                     operation := 2, colors := (colors src)[c := REMOVED]\<rparr>"
  have "state_ok dst2 = state_ok src"
    by (simp add: dst2_def state_ok_def well_formed_def active_consistent_def check_state_def
          without_incident_def)
  then have ok2: "state_ok dst2" using ok by simp
  have r2: "c < unat (num_characters_orig dst2)" "characters dst2 ! c \<noteq> 0"
    using r act by (simp_all add: dst2_def c_def)
  define dst4 where "dst4 = dst2\<lparr>characters := (characters dst2)[c := 0],
                      current_states := (current_states dst2)[c := - 1],
                      num_characters := num_characters dst2 - 1\<rparr>"
  note del = delete_character_ok [OF ok2 r2, folded dst4_def]
  obtain sp n ch cs m where
    cl: "cleanup dst4 = Inr (dst4\<lparr>species := sp, num_species := n, characters := ch,
                                  current_states := cs, num_characters := m\<rparr>)"
        "state_ok (dst4\<lparr>species := sp, num_species := n, characters := ch,
                         current_states := cs, num_characters := m\<rparr>)"
        "\<forall>j < unat (num_characters_orig dst4).
              ch ! j = (if null_character dst4 j then 0 else characters dst4 ! j)"
        "\<forall>j < unat (num_characters_orig dst4).
              cs ! j = (if null_character dst4 j then - 1 else current_states dst4 ! j)"
        "m = num_characters dst4
               - of_nat (length (filter (null_character dst4)
                   [0..<unat (num_characters_orig dst4)]))"
    using cleanup_ok [OF del(2)] by blast
  have len: "c < length (current_states src)" "c < length (characters src)"
    using r wf by (simp_all add: c_def well_formed_def)
  have c4: "c < unat (num_characters_orig dst4)" using r by (simp add: dst4_def dst2_def c_def)
  have "characters dst4 ! c = 0" "current_states dst4 ! c = - 1"
    using len by (simp_all add: dst4_def dst2_def)
  then have at_c: "ch ! c = 0" "cs ! c = - 1"
    using cl(3,4) c4 by auto
  have null4: "null_character dst4
                 = null_character (src\<lparr>red_black := without_incident (red_black src) v,
                                        characters := (characters src)[c := 0]\<rparr>)"
    by (rule ext) (simp add: null_character_def dst4_def dst2_def char_vertex_def)
  have m: "m = num_characters src - 1
                 - of_nat (length (filter
                     (null_character (src\<lparr>red_black := without_incident (red_black src) v,
                                            characters := (characters src)[c := 0]\<rparr>))
                     [0..<unat (num_characters_orig src)]))"
    using cl(5) unfolding null4 by (simp add: dst4_def dst2_def)
  have "realize_character dst0 src
          = Inr (True, dst4\<lparr>species := sp, num_species := n, characters := ch,
                                  current_states := cs, num_characters := m\<rparr>)"
    unfolding realize_character_def
    using cl(1) cl(2) del(1) del(2)
    by (simp add: copy_state_wf [OF wf chk] chk D [folded v_def] red [folded c_def] Let_def
          v_def [symmetric] c_def [symmetric] igraph_delete_incident_valid [OF vv(1)]
          realize_red_def dst4_def dst2_def state_ok_def REMOVED_def)
  then show ?thesis
    using at_c m unfolding dst4_def dst2_def v_def c_def
    by (intro exI [of _ sp] exI [of _ n] exI [of _ ch] exI [of _ cs] exI [of _ m]) simp
qed

lemma realize_red_inactive:
  assumes wf: "well_formed src" and chk: "check_state src = 0"
    and red: "colors src ! unat (realize src) = RED"
    and D: "not_adjacent_species (red_black src) (unat (num_species_orig src))
              (char_vertex src (realize src)) = Inr []"
    and gone: "characters src ! unat (realize src) = 0 \<or>
               current_states src ! unat (realize src) = - 1"
  shows "realize_character dst0 src = Inl AssertionFailed"
proof -
  note v = not_adjacent_speciesD(1) [OF D]
  show ?thesis
    unfolding realize_character_def
    using gone
    by (auto simp: copy_state_wf [OF wf chk] chk D red Let_def realize_red_def
          delete_character_def igraph_delete_incident_valid [OF v])
qed
section \<open>The worked instance\<close>

lemma chain_states:
  "load_instance [3, 2, 1, 0, 1, 1, 0, 1] = Inr chain_start"
  "realize_in 1 chain_start = Inr (True, chain_red)"
  "realize_in 0 chain_red = Inr (True, chain_free)"
  by code_simp+

lemma chain_well_formed:
  "well_formed chain_start" "well_formed chain_red" "well_formed chain_free"
  by (simp_all add: well_formed_def chain_start_def chain_red_def chain_free_def)

lemma chain_checked:
  "check_state chain_start = 0" "check_state chain_red = 0" "check_state chain_free = 0"
  by code_simp+

lemma chain_consistent:
  "active_consistent chain_start" "active_consistent chain_red" "active_consistent chain_free"
  by code_simp+

lemma chain_ok: "state_ok chain_start" "state_ok chain_red" "state_ok chain_free"
  by (simp_all add: state_ok_def chain_well_formed chain_checked chain_consistent)

lemma sparse_loaded: "load_instance [2, 2, 1, 0, 0, 0] = Inr sparse_state"
  by code_simp

lemma spent_realized:
  "bind_res (load_instance [2, 2, 1, 0, 1, 1]) (realize_in 0) = Inr (True, spent_state)"
  by code_simp

lemma read_state_checked:
  "read_state filename stp fs = Inr st \<Longrightarrow> check_state st = 0"
  by (auto simp: read_state_def bind_res_eq_Inr Let_def
           split: option.splits file_content.splits)

lemma write_state_unchecked:
  "check_state st \<noteq> 0 \<Longrightarrow> write_state filename st fs = Inl AssertionFailed"
  by (simp add: write_state_def Let_def)

lemma sparse_read_ok: "state_ok sparse_read"
proof -
  have "well_formed sparse_read"
    by (simp add: well_formed_def sparse_read_def sparse_state_def)
  moreover have "check_state sparse_read = 0" by code_simp
  moreover have "active_consistent sparse_read" by code_simp
  ultimately show ?thesis by (simp add: state_ok_def)
qed

lemma sparse_snapshot_read: "read_state ''in'' new_state sparse_snapshot = Inr sparse_read"
  by code_simp

lemma sparse_read_clean: "cleanup sparse_read = Inr sparse_clean"
  by code_simp
section \<open>What the loader builds\<close>

lemma add_each_edge_valid:
  "list_all (valid_edge g) es \<Longrightarrow> add_each_edge es g = Inr (g\<lparr>edgelist := edgelist g @ es\<rparr>)"
proof (induction es arbitrary: g)
  case Nil
  then show ?case by simp
next
  case (Cons e es)
  obtain u v where e: "e = (u, v)" by (cases e)
  have "list_all (valid_edge (g\<lparr>edgelist := edgelist g @ [(u, v)]\<rparr>)) es"
    using Cons.prems by (simp add: valid_edge_def list_all_iff)
  from Cons.IH [OF this] show ?case
    using Cons.prems by (simp add: e igraph_add_edge_def igraph_add_edges_def)
qed

lemma set_cell_indices: "set (cell_indices n m) = {(s, c). s < n \<and> c < m}"
  by (auto simp: cell_indices_def)

lemma cell_positions: "map (\<lambda>(s, c). c + m * s) (cell_indices n m) = [0..<n * m]"
proof (induction n)
  case 0
  then show ?case by (simp add: cell_indices_def)
next
  case (Suc n)
  have "map (\<lambda>(s, c). c + m * s) (map (Pair n) [0..<m]) = [n * m..<n * m + m]"
    by (simp add: map_add_upt comp_def mult.commute add.commute)
  moreover have "[0..<n * m] @ [n * m..<n * m + m] = [0..<m + n * m]"
    using upt_add_eq_append [of 0 "n * m" m] by (simp add: add.commute)
  ultimately show ?case
    using Suc by (simp add: cell_indices_def)
qed

lemma fold_store_upt:
  "length ts = n - k \<Longrightarrow> k \<le> n \<Longrightarrow> length mx = n \<Longrightarrow>
     fold (\<lambda>(i, t) mx. mx[i := t]) (zip [k..<n] ts) mx = take k mx @ ts"
proof (induction ts arbitrary: k mx)
  case Nil
  then show ?case by simp
next
  case (Cons t ts)
  have k: "k < n" using Cons.prems by simp
  have "fold (\<lambda>(i, t) mx. mx[i := t]) (zip [Suc k..<n] ts) (mx[k := t])
          = take (Suc k) (mx[k := t]) @ ts"
    using Cons.prems by (intro Cons.IH) simp_all
  then show ?case
    using k Cons.prems(3)
    by (simp add: upt_conv_Cons take_Suc_conv_app_nth)
qed


lemma matrix_index_num_characters:
  "matrix_index (matrix_set_value stp s c t) = matrix_index stp"
  by (rule ext)+ (simp add: matrix_index_def matrix_set_value_def)

lemma read_cells_enough:
  assumes "length cells \<le> length toks" "matrix stp = Some mx"
    and "sp \<or> length cells < length toks"
  shows "read_cells sp cells toks stp
           = Inr (True, drop (length cells) toks,
                  stp\<lparr>matrix := Some (fold (\<lambda>(i, t) mx. mx[i := t])
                       (zip (map (\<lambda>(s, c). matrix_index stp s c) cells) toks) mx)\<rparr>)"
  using assms
proof (induction sp cells toks stp arbitrary: mx rule: read_cells.induct)
  case (1 sp toks stp)
  then show ?case by simp
next
  case (2 sp s c cells stp)
  then show ?case by simp
next
  case (3 sp s c cells t toks stp)
  have more: "\<not> (toks = [] \<and> \<not> sp)"
    using "3.prems" by auto
  have "matrix (matrix_set_value stp s c t) = Some (mx[matrix_index stp s c := t])"
    using "3.prems" by (simp add: matrix_set_value_def)
  from "3.IH" [OF more _ this] "3.prems" more show ?case
    by (simp add: matrix_index_num_characters) (simp add: matrix_set_value_def)
qed


lemma matrix_index_flat:
  assumes "s < unat (num_species stp)" "c < unat (num_characters stp)"
    and "unat (num_species stp) * unat (num_characters stp) < 2 ^ 32"
  shows "matrix_index stp s c = c + unat (num_characters stp) * s"
proof -
  let ?m = "unat (num_characters stp)"
  have "?m * Suc s \<le> ?m * unat (num_species stp)"
    using assms(1) by (intro mult_le_mono2) simp
  then have bound: "c + ?m * s < 2 ^ 32"
    using assms(2,3) by (simp add: mult.commute)
  then have ms: "?m * s < 2 ^ 32" and c32: "c < 2 ^ 32" by simp_all
  have s32: "s < 2 ^ 32"
    using assms(1) unsigned_less [of "num_species stp", where 'a = nat] by simp
  have us: "unat (of_nat s :: u32) = s" and uc: "unat (of_nat c :: u32) = c"
    using s32 c32 by (simp_all add: unat_of_nat)
  have "unat (num_characters stp * of_nat s) = ?m * s"
    using ms by (simp add: unat_mult_lem [THEN iffD1] us)
  then show ?thesis
    unfolding matrix_index_def using bound by (simp add: unat_add_lem [THEN iffD1] uc)
qed

lemma fold_mark:
  "length (fold (\<lambda>s st. st[f s := w]) ss init) = length init"
  "k < length init \<Longrightarrow>
     fold (\<lambda>s st. st[f s := w]) ss init ! k = (if k \<in> f ` set ss then w else init ! k)"
  by (induction ss arbitrary: init) (auto simp: nth_list_update)

lemma four_flags:
  "(if a then 1 else 0) + (if b then 1 else 0) + (if c then 1 else 0) + (if d then 1 else 0)
     = (4 :: u32) \<longleftrightarrow> a \<and> b \<and> c \<and> d"
  by (cases a; cases b; cases c; cases d) simp_all

lemma in_conflict_marks:
  "in_conflict stp c1 c2 \<longleftrightarrow>
     (\<forall>k < 4. k \<in> (\<lambda>s. 2 * unat (matrix_get_value stp s c1) + unat (matrix_get_value stp s c2))
                    ` {0..<unat (num_species stp)})"
proof -
  let ?f = "\<lambda>s. 2 * unat (matrix_get_value stp s c1) + unat (matrix_get_value stp s c2)"
  have nth: "column_pair_states stp c1 c2 ! k
               = (if k \<in> ?f ` {0..<unat (num_species stp)} then 1 else 0)" if "k < 4" for k
  proof -
    have "k < length [0 :: u32, 0, 0, 0]" using that by simp
    from fold_mark(2) [OF this, of ?f 1 "[0..<unat (num_species stp)]"] that
    show ?thesis
      by (auto simp: column_pair_states_def nth_Cons split: nat.splits)
  qed
  have "(\<forall>k < (4 :: nat). P k) \<longleftrightarrow> P 0 \<and> P 1 \<and> P 2 \<and> P 3" for P
  proof -
    have "k < 4 \<longleftrightarrow> k = 0 \<or> k = 1 \<or> k = 2 \<or> k = 3" for k :: nat by auto
    then show ?thesis by auto
  qed
  then show ?thesis
    unfolding in_conflict_def Let_def by (simp add: nth four_flags)
qed


lemma cnt_replicate: "P v \<Longrightarrow> cnt P (replicate k v) k = k"
  by (simp add: cnt_def cong: filter_cong)

lemma init_state_checked:
  assumes "n \<noteq> - 1" "m \<noteq> - 1"
  shows "check_state ((init_state dst n m)\<lparr>num_species := n, num_characters := m\<rparr>) = 0"
proof -
  have "unat n < 2 ^ 32 - 1" "unat m < 2 ^ 32 - 1"
    using assms unsigned_less [of n, where 'a = nat] unsigned_less [of m, where 'a = nat]
      unat_max_u32 word_unat_eq_iff [of n "- 1"] word_unat_eq_iff [of m "- 1"]
    by auto
  then show ?thesis
    by (simp add: check_state_counts init_state_def cnt_replicate)
qed

lemma loader_result:
  fixes dst :: state_s and n m :: u32 and cells rest :: "u32 list"
  assumes len: "length cells = unat n * unat m"
    and nm: "unat n * unat m < 2 ^ 32"
    and vs: "unat n + unat m < 2 ^ 32 - 1"
    and fin: "sp \<or> rest \<noteq> []"
  defines "stp3 \<equiv> (init_state dst n m)\<lparr>num_species := n, num_characters := m,
                                           matrix := Some cells\<rparr>"
  shows "read_instance_from_filename
           ((instance_file (n # m # cells @ rest))\<lparr>final_space := sp\<rparr>) dst
           = Inr (True,
                  (instance_file (n # m # cells @ rest))
                     \<lparr>final_space := sp, file_stream := Some rest, props_num_species := n,
                      props_num_characters := m\<rparr>,
                  stp3\<lparr>red_black := \<lparr>vcount = unat n + unat m, edgelist = red_black_edges stp3\<rparr>,
                       conflict := \<lparr>vcount = unat m, edgelist = conflict_edges stp3\<rparr>\<rparr>)"
proof -
  define N where "N = unat n * unat m"
  define stp2 where "stp2 = (init_state dst n m)\<lparr>num_species := n, num_characters := m,
                                           matrix := Some (replicate N 0)\<rparr>"
  have unm: "unat (n * m) = N"
    using nm by (simp add: N_def unat_mult_lem [THEN iffD1])
  have uadd: "unat (n + m) = unat n + unat m"
    using vs by (simp add: unat_add_lem [THEN iffD1])
  have n2: "num_species stp2 = n" "num_characters stp2 = m" "matrix stp2 = Some (replicate N 0)"
    by (simp_all add: stp2_def)
  have "map (\<lambda>(s, c). matrix_index stp2 s c) (cell_indices (unat n) (unat m))
          = map (\<lambda>(s, c). c + unat m * s) (cell_indices (unat n) (unat m))"
    using nm by (intro map_cong refl) (auto simp: set_cell_indices matrix_index_flat n2)
  then have idx: "map (\<lambda>(s, c). matrix_index stp2 s c) (cell_indices (unat n) (unat m)) = [0..<N]"
    by (simp add: cell_positions N_def)
  have lenc: "length (cell_indices (unat n) (unat m)) = N"
    using arg_cong [OF cell_positions [of "unat m" "unat n"], of length] by (simp add: N_def)
  have "fold (\<lambda>(i, t) mx. mx[i := t]) (zip [0..<N] cells) (replicate N 0) = take 0 (replicate N (0 :: u32)) @ cells"
    using len by (intro fold_store_upt) (simp_all add: N_def)
  then have stored: "fold (\<lambda>(i, t) mx. mx[i := t]) (zip [0..<N] (cells @ rest)) (replicate N 0) = cells"
    using len by (simp add: zip_append2 N_def)
  have rc: "read_cells sp (cell_indices (unat n) (unat m)) (cells @ rest) stp2
              = Inr (True, rest, stp3)"
    using read_cells_enough [of "cell_indices (unat n) (unat m)" "cells @ rest" stp2 _ sp,
        OF _ n2(3)] len fin
    by (simp add: lenc idx stored) (simp add: stp2_def stp3_def N_def)
  have n3: "num_species stp3 = n" "num_characters stp3 = m"
    "red_black stp3 = igraph_empty (unat n + unat m)" "conflict stp3 = igraph_empty (unat m)"
    by (simp_all add: stp3_def init_state_def uadd)
  have "unat (of_nat c + n :: u32) = c + unat n" if "c < unat m" for c
  proof -
    have "unat (of_nat c :: u32) = c" using that by (intro le_unat_uoi [of _ m]) simp
    moreover have "c + unat n < 2 ^ LENGTH(32)" using that vs by simp
    ultimately show ?thesis by (simp add: unat_add_lem [THEN iffD1])
  qed
  then have "list_all (valid_edge (igraph_empty (unat n + unat m))) (red_black_edges stp3)"
    by (auto simp: red_black_edges_def list_all_iff valid_edge_def igraph_empty_def n3
          set_cell_indices)
  then have rb: "add_each_edge (red_black_edges stp3) (red_black stp3)
                   = Inr \<lparr>vcount = unat n + unat m, edgelist = red_black_edges stp3\<rparr>"
    by (simp add: add_each_edge_valid n3) (simp add: igraph_empty_def)
  have "list_all (valid_edge (igraph_empty (unat m))) (conflict_edges stp3)"
    by (auto simp: conflict_edges_def list_all_iff valid_edge_def igraph_empty_def n3)
  then have cg: "add_each_edge (conflict_edges stp3) (conflict stp3)
                   = Inr \<lparr>vcount = unat m, edgelist = conflict_edges stp3\<rparr>"
    by (simp add: add_each_edge_valid n3) (simp add: igraph_empty_def)
  have "n \<noteq> - 1" "m \<noteq> - 1"
    using vs unat_max_u32 by auto
  then have chk: "check_state stp3 = 0"
    using init_state_checked [of n m dst] by (simp add: stp3_def)
  show ?thesis
    unfolding read_instance_from_filename_def
    using rc [unfolded stp2_def] rb cg chk
    by (simp add: open_instances_def instance_file_def Let_def unm N_def [symmetric])
qed


lemma flat_index_bound:
  assumes "s < n" "c < (m :: nat)"
  shows "c + m * s < n * m"
proof -
  have "m * Suc s \<le> m * n" using assms(1) by (intro mult_le_mono2) simp
  then show ?thesis using assms(2) by (simp add: mult.commute)
qed

lemma binary_pair_code:
  assumes "a = 0 \<or> a = (1 :: u32)" "b = 0 \<or> b = (1 :: u32)"
  shows "2 * unat a + unat b = 0 \<longleftrightarrow> a = 0 \<and> b = 0"
    "2 * unat a + unat b = Suc 0 \<longleftrightarrow> a = 0 \<and> b = 1"
    "2 * unat a + unat b = 2 \<longleftrightarrow> a = 1 \<and> b = 0"
    "2 * unat a + unat b = 3 \<longleftrightarrow> a = 1 \<and> b = 1"
  using assms by (elim disjE; simp)+

lemma ex_less_cong:
  "(\<And>s. s < n \<Longrightarrow> P s \<longleftrightarrow> Q s) \<Longrightarrow> (\<exists>s < n. P s) \<longleftrightarrow> (\<exists>s < (n :: nat). Q s)"
  by auto

section \<open>What a snapshot holds\<close>

lemma json_object_get_empty [simp]: "json_object_get (JObject []) field = None"
  by (simp add: json_object_get_def)

lemma array_round_trip:
  "length xs = k \<Longrightarrow> json_array2array (map (\<lambda>i. JInteger (uint (xs ! i))) [0..<k]) = xs"
  by (auto simp: json_array2array_def json_integer_value_def comp_def intro: nth_equalityI)

lemma graph_names_differ:
  "filename @ ''-redblack.graphml'' \<noteq> filename"
  "filename @ ''-conflict.graphml'' \<noteq> filename"
  "filename @ ''-redblack.graphml'' \<noteq> filename @ ''-conflict.graphml''"
  by simp_all


lemma build_json_state_fields:
  assumes "build_json_state S rb_name c_name = Inr data"
  shows "json_object_get data ''realize'' = Some (JInteger (uint (realize S)))"
    and "json_object_get data ''num_species'' = Some (JInteger (uint (num_species S)))"
    and "json_object_get data ''num_characters'' = Some (JInteger (uint (num_characters S)))"
    and "json_object_get data ''num_species_orig'' = Some (JInteger (uint (num_species_orig S)))"
    and "json_object_get data ''num_characters_orig''
           = Some (JInteger (uint (num_characters_orig S)))"
    and "json_object_get data ''current''
           = Some (array2json_array (current_states S) (unat (num_characters_orig S)))"
    and "json_object_get data ''species''
           = Some (array2json_array (species S) (unat (num_species_orig S)))"
    and "json_object_get data ''characters''
           = Some (array2json_array (characters S) (unat (num_characters_orig S)))"
    and "json_object_get data ''red_black_file'' = Some (JString rb_name)"
    and "json_object_get data ''conflict_file'' = Some (JString c_name)"
    and "json_object_get data ''tried_characters''
           = Some (gslist2json_array (tried_characters S))"
    and "json_object_get data ''character_queue''
           = Some (gslist2json_array (character_queue S))"
  using assms
  by (auto simp: build_json_state_def Let_def bind_res_eq_Inr json_object_get_def
        split: option.splits)


lemma build_json_state_checked:
  "check_state S = 0 \<Longrightarrow> \<exists>data. build_json_state S rb_name c_name = Inr data"
  by (simp add: build_json_state_def Let_def)

lemma read_state_fresh:
  assumes "read_state filename dst fs = Inr st"
  shows "colors st = replicate (unat (num_characters_orig st)) BLACK"
    and "operation st = 0"
    and "tried_characters st = []"
    and "character_queue st = []"
    and "matrix st = matrix dst"
  using assms
  by (auto simp: read_state_def bind_res_eq_Inr Let_def init_state_def json_get_list_def
           split: option.splits file_content.splits)

lemma write_then_read:
  assumes chk: "check_state S = 0"
    and len: "length (species S) = unat (num_species_orig S)"
      "length (characters S) = unat (num_characters_orig S)"
      "length (current_states S) = unat (num_characters_orig S)"
  shows "\<exists>data.
           build_json_state S (filename @ ''-redblack.graphml'')
             (filename @ ''-conflict.graphml'') = Inr data \<and>
           write_state filename S fs
             = Inr (fs(filename @ ''-redblack.graphml'' := Some (Graphml_file (red_black S)),
                       filename @ ''-conflict.graphml'' := Some (Graphml_file (conflict S)),
                       filename := Some (Json_file data))) \<and>
           read_state filename dst
               (fs(filename @ ''-redblack.graphml'' := Some (Graphml_file (red_black S)),
                   filename @ ''-conflict.graphml'' := Some (Graphml_file (conflict S)),
                   filename := Some (Json_file data)))
             = Inr ((init_state dst (num_species_orig S) (num_characters_orig S))
                      \<lparr>realize := realize S, tried_characters := [], character_queue := [],
                       num_species := num_species S, num_characters := num_characters S,
                       current_states := current_states S, species := species S,
                       characters := characters S, red_black := red_black S,
                       conflict := conflict S\<rparr>)"
proof -
  let ?rb = "filename @ ''-redblack.graphml''" and ?cg = "filename @ ''-conflict.graphml''"
  obtain data where data: "build_json_state S ?rb ?cg = Inr data"
    using build_json_state_checked [OF chk] by blast
  note f = build_json_state_fields [OF data]
  define fs' where "fs' = fs(?rb := Some (Graphml_file (red_black S)),
                            ?cg := Some (Graphml_file (conflict S)),
                            filename := Some (Json_file data))"
  have w: "write_state filename S fs = Inr fs'"
    by (simp add: write_state_def Let_def chk data fs'_def)
  have files: "fs' filename = Some (Json_file data)"
    "read_graphml fs' ?rb = Inr (red_black S)" "read_graphml fs' ?cg = Inr (conflict S)"
    by (simp_all add: fs'_def read_graphml_def)
  define S' where "S' = (init_state dst (num_species_orig S) (num_characters_orig S))
                          \<lparr>realize := realize S, tried_characters := [], character_queue := [],
                           num_species := num_species S, num_characters := num_characters S,
                           current_states := current_states S, species := species S,
                           characters := characters S, red_black := red_black S,
                           conflict := conflict S\<rparr>"
  have "check_state S' = check_state S"
    by (simp add: S'_def check_state_def init_state_def)
  then have chk': "check_state S' = 0" using chk by simp
  have r: "read_state filename dst fs' = Inr S'"
    unfolding read_state_def
    using chk'
    by (simp add: files f json_get_integer_def json_get_array_def json_get_string_def
          json_get_list_def array2json_array_def array_round_trip len Let_def S'_def)
  show ?thesis
    using data w r unfolding fs'_def S'_def by blast
qed

section \<open>Replay with no character to realize\<close>

lemma replay_empty_list:
  assumes rd: "read_state in_name new_state fs = Inr S" and ok: "state_ok S"
  shows "\<exists>S' fs'. cleanup S = Inr S' \<and>
           replay in_name [] out_name fs = Inr fs' \<and>
           read_state out_name new_state fs' = Inr S' \<and>
           (\<forall>name. name \<noteq> out_name \<and> name \<noteq> out_name @ ''-redblack.graphml'' \<and>
                    name \<noteq> out_name @ ''-conflict.graphml'' \<longrightarrow> fs' name = fs name) \<and>
           replay out_name [] out_name fs' = Inr fs'"
proof -
  let ?rb = "out_name @ ''-redblack.graphml''" and ?cg = "out_name @ ''-conflict.graphml''"
  note fresh = read_state_fresh [OF rd]
  from cleanup_ok [OF ok] obtain sp n ch cs m where
    cl: "cleanup S = Inr (S\<lparr>species := sp, num_species := n, characters := ch,
                            current_states := cs, num_characters := m\<rparr>)"
    and ok1: "state_ok (S\<lparr>species := sp, num_species := n, characters := ch,
                          current_states := cs, num_characters := m\<rparr>)"
    by blast
  define S1 where "S1 = S\<lparr>species := sp, num_species := n, characters := ch,
                          current_states := cs, num_characters := m\<rparr>"
  note cl = cl [folded S1_def] and ok1 = ok1 [folded S1_def]
  have chk: "check_state S = 0" using ok by (simp add: state_ok_def)
  have chk1: "check_state S1 = 0" using ok1 by (simp add: state_ok_def)
  have len1: "length (species S1) = unat (num_species_orig S1)"
    "length (characters S1) = unat (num_characters_orig S1)"
    "length (current_states S1) = unat (num_characters_orig S1)"
    using ok1 by (simp_all add: state_ok_def well_formed_def)
  have restored: "(init_state new_state (num_species_orig S1) (num_characters_orig S1))
                 \<lparr>realize := realize S1, tried_characters := [], character_queue := [],
                  num_species := num_species S1, num_characters := num_characters S1,
                  current_states := current_states S1, species := species S1,
                  characters := characters S1, red_black := red_black S1,
                  conflict := conflict S1\<rparr> = S1"
    using fresh by (simp add: S1_def init_state_def new_state_def)
  have settled: "cleanup S1 = Inr S1"
    using cleanup_settles [OF cl] ok by (simp add: state_ok_def well_formed_def)
  have go: "\<exists>data. build_json_state S1 ?rb ?cg = Inr data \<and>
           write_state out_name S1 fs0
             = Inr (fs0(?rb := Some (Graphml_file (red_black S1)),
                        ?cg := Some (Graphml_file (conflict S1)),
                        out_name := Some (Json_file data))) \<and>
           read_state out_name new_state
               (fs0(?rb := Some (Graphml_file (red_black S1)),
                    ?cg := Some (Graphml_file (conflict S1)),
                    out_name := Some (Json_file data))) = Inr S1" for fs0
    using write_then_read [OF chk1 len1, of out_name fs0 new_state] unfolding restored .
  from go [of fs] obtain data where
    data: "build_json_state S1 ?rb ?cg = Inr data"
    and w: "write_state out_name S1 fs
          = Inr (fs(?rb := Some (Graphml_file (red_black S1)),
                    ?cg := Some (Graphml_file (conflict S1)),
                    out_name := Some (Json_file data)))"
    and r: "read_state out_name new_state
               (fs(?rb := Some (Graphml_file (red_black S1)),
                   ?cg := Some (Graphml_file (conflict S1)),
                   out_name := Some (Json_file data))) = Inr S1"
    by blast
  define fs' where "fs' = fs(?rb := Some (Graphml_file (red_black S1)),
                            ?cg := Some (Graphml_file (conflict S1)),
                            out_name := Some (Json_file data))"
  have once: "replay in_name [] out_name fs = Inr fs'"
    using rd chk cl chk1 w by (simp add: replay_def fs'_def)
  have same: "write_state out_name S1 fs' = Inr fs'"
    by (simp add: write_state_def Let_def chk1 data fs'_def)
  have again: "replay out_name [] out_name fs' = Inr fs'"
    using r [folded fs'_def] chk1 settled same by (simp add: replay_def)
  have other: "\<forall>name. name \<noteq> out_name \<and> name \<noteq> ?rb \<and> name \<noteq> ?cg \<longrightarrow> fs' name = fs name"
    by (simp add: fs'_def)
  show ?thesis
    using cl once r [folded fs'_def] other again by blast
qed
section \<open>Rejected realization\<close>

text \<open>
  C1, as the code has it.  Let \<open>c = realize S\<close> be RED in a well-formed state \<open>S\<close> that passes
  \<^verbatim>\<open>check_state\<close>, and let some species of the component of \<open>c\<close>'s vertex be non-adjacent
  to it (\<open>D\<close>, the list the code collects, holds exactly these species).  Then the operator returns
  false with \<open>operation = 0\<close>; the child has empty \<open>tried_characters\<close> and \<open>character_queue\<close>
  and equals \<open>S\<close> on every other field but \<open>operation\<close> and the red-black graph; the
  red-black graph keeps its vertices and every edge that is not at \<open>c\<close>'s vertex, and gains
  no edge.
\<close>

theorem realize_red_rejects:
  assumes "well_formed S" and "check_state S = 0"
    and "colors S ! unat (realize S) = RED"
    and "not_adjacent_species (red_black S) (unat (num_species_orig S))
           (char_vertex S (realize S)) = Inr D"
    and "D \<noteq> []"
  shows "(\<exists>S'. realize_character dst0 S = Inr (False, S') \<and>
           operation S' = 0 \<and> tried_characters S' = [] \<and> character_queue S' = [] \<and>
           S'\<lparr>operation := operation S, tried_characters := tried_characters S,
              character_queue := character_queue S, red_black := red_black S\<rparr> = S \<and>
           vcount (red_black S') = vcount (red_black S) \<and>
           filter (\<lambda>e. \<not> incident (char_vertex S (realize S)) e) (edgelist (red_black S'))
             = filter (\<lambda>e. \<not> incident (char_vertex S (realize S)) e) (edgelist (red_black S)) \<and>
           set (edgelist (red_black S')) \<subseteq> set (edgelist (red_black S))) \<and>
         set D = {u. u < unat (num_species_orig S) \<and> u \<noteq> char_vertex S (realize S) \<and>
                     (char_vertex S (realize S), u) \<in> (adjacent (red_black S))\<^sup>* \<and>
                     (char_vertex S (realize S), u) \<notin> adjacent (red_black S)}"
proof -
  let ?S' = "S\<lparr>tried_characters := [], character_queue := [],
               red_black := without_incident (red_black S) (char_vertex S (realize S)),
               operation := 0\<rparr>"
  have "realize_character dst0 S = Inr (False, ?S')"
    using assms by (rule realize_reject)
  moreover have "?S'\<lparr>operation := operation S, tried_characters := tried_characters S,
              character_queue := character_queue S, red_black := red_black S\<rparr> = S"
    by simp
  ultimately have "\<exists>S'. realize_character dst0 S = Inr (False, S') \<and>
           operation S' = 0 \<and> tried_characters S' = [] \<and> character_queue S' = [] \<and>
           S'\<lparr>operation := operation S, tried_characters := tried_characters S,
              character_queue := character_queue S, red_black := red_black S\<rparr> = S \<and>
           vcount (red_black S') = vcount (red_black S) \<and>
           filter (\<lambda>e. \<not> incident (char_vertex S (realize S)) e) (edgelist (red_black S'))
             = filter (\<lambda>e. \<not> incident (char_vertex S (realize S)) e) (edgelist (red_black S)) \<and>
           set (edgelist (red_black S')) \<subseteq> set (edgelist (red_black S))"
    by (intro exI [of _ ?S']) (auto simp: without_incident_def)
  then show ?thesis
    using not_adjacent_species_meaning [OF assms(4)] by blast
qed

text \<open>
  The witness: character 1 of the worked instance is RED and species 1 of its component is
  not adjacent to it.
\<close>

theorem realize_red_rejects_witness:
  "well_formed chain_red \<and> check_state chain_red = 0 \<and>
   colors chain_red ! unat (realize chain_red) = RED \<and>
   not_adjacent_species (red_black chain_red) (unat (num_species_orig chain_red))
     (char_vertex chain_red (realize chain_red)) = Inr [1] \<and>
   (\<exists>S'. realize_character new_state chain_red = Inr (False, S') \<and>
           operation S' = 0 \<and> tried_characters S' = [] \<and> character_queue S' = [] \<and>
           S'\<lparr>operation := operation chain_red, tried_characters := tried_characters chain_red,
              character_queue := character_queue chain_red, red_black := red_black chain_red\<rparr>
             = chain_red \<and>
           vcount (red_black S') = vcount (red_black chain_red) \<and>
           filter (\<lambda>e. \<not> incident (char_vertex chain_red (realize chain_red)) e)
               (edgelist (red_black S'))
             = filter (\<lambda>e. \<not> incident (char_vertex chain_red (realize chain_red)) e)
                 (edgelist (red_black chain_red)) \<and>
           set (edgelist (red_black S')) \<subseteq> set (edgelist (red_black chain_red)))"
proof -
  have red: "colors chain_red ! unat (realize chain_red) = RED"
    by (simp add: chain_red_def)
  have D: "not_adjacent_species (red_black chain_red) (unat (num_species_orig chain_red))
             (char_vertex chain_red (realize chain_red)) = Inr [1]"
    by code_simp
  show ?thesis
    using realize_red_rejects [OF chain_well_formed(2) chain_checked(2) red D, of new_state,
        THEN conjunct1]
      chain_well_formed(2) chain_checked(2) red D
    by simp
qed

text \<open>
  The claim as stated fails twice.  After characters 0 and 1 of \<^verbatim>\<open>2 3 / 1 1 0 / 0 1 1\<close>
  have been realized, character 0 is RED and vertex 4 (character 2) lies in its component
  without being its neighbour, so the specification's \<open>D\<close> is not empty; the code's list is
  empty and the realization is accepted with \<open>operation = 2\<close>.  And where the code does
  reject (character 1 of the worked instance), the child has lost the edge at the
  character's vertex.
\<close>

theorem realize_red_rejects_counterexample:
  "bind_res (load_instance [2, 3, 1, 1, 0, 0, 1, 1]) (\<lambda>s0.
   bind_res (realize_each [0, 1] s0) (\<lambda>s2.
     Inr (colors s2 ! 0, not_adjacent_vertices (red_black s2) (char_vertex s2 0),
          not_adjacent_species (red_black s2) (unat (num_species_orig s2)) (char_vertex s2 0),
          map_sum id (\<lambda>(accepted, s3). (accepted, operation s3)) (realize_in 0 s2))))
     = Inr (RED, Inr [4], Inr [], Inr (True, 2)) \<and>
   map_sum id (\<lambda>(accepted, s3). (accepted, edgelist (red_black s3))) (realize_in 1 chain_red)
     = Inr (False, [(0, 3), (1, 3)]) \<and>
   edgelist (red_black chain_red) = [(0, 3), (1, 3), (4, 0)]"
  by code_simp

section \<open>The colour of a character that Cleanup removes\<close>

text \<open>
  C2 does not hold of the code.  The removal branch of \<^verbatim>\<open>realize_character\<close> sets
  \<open>colors[c] = RED + 1\<close> before it calls \<^verbatim>\<open>delete_character\<close>; \<^verbatim>\<open>cleanup\<close> calls
  \<^verbatim>\<open>delete_character\<close> alone.  On \<^verbatim>\<open>2 2 / 1 0 / 0 1\<close> the accepted realization of character 0
  ends with a Cleanup that removes character 0: its current state is \<open>-1\<close>, it is inactive,
  and its colour is still RED.  Cleanup alone on \<^verbatim>\<open>2 2 / 1 0 / 0 0\<close> removes character 1 and
  leaves it BLACK.
\<close>

theorem cleanup_keeps_colour:
  "bind_res (load_instance [2, 2, 1, 0, 0, 1]) (\<lambda>s0.
   bind_res (realize_in 0 s0) (\<lambda>(accepted, s1).
     Inr (accepted, operation s1, colors s1 ! 0, current_states s1 ! 0, characters s1 ! 0)))
     = Inr (True, 1, RED, - 1, 0) \<and>
   map_sum id (\<lambda>s1. (colors s1 ! 1, current_states s1 ! 1, characters s1 ! 1))
     (cleanup sparse_state)
     = Inr (BLACK, - 1, 0) \<and>
   RED \<noteq> REMOVED \<and> BLACK \<noteq> REMOVED"
  by code_simp

section \<open>Realizing a BLACK character\<close>

text \<open>
  C3, as the code has it.  Let \<open>c = realize S\<close> be a BLACK character of a consistent state
  \<open>S\<close> whose current state is not \<open>-1\<close>.  Then the realization is accepted; in the child
  the edges at \<open>c\<close>'s vertex \<open>v\<close> are gone, an edge from \<open>v\<close> to every species of \<open>D\<close> has been
  added and no other edge has changed; \<open>colors[c]\<close> is RED and \<open>operation\<close> is 1.
  \<open>current_states[c]\<close> is 1 when \<open>D\<close> holds a species; when it holds none, \<open>c\<close> is left without
  edges and the Cleanup that ends the realization removes it, so \<open>current_states[c]\<close> is
  \<open>-1\<close> (if \<open>c\<close> was marked active).
\<close>

theorem realize_black_accepts:
  assumes "state_ok S"
    and "unat (realize S) < unat (num_characters_orig S)"
    and "colors S ! unat (realize S) = BLACK"
    and "current_states S ! unat (realize S) \<noteq> - 1"
    and "not_adjacent_species (red_black S) (unat (num_species_orig S))
           (char_vertex S (realize S)) = Inr D"
  shows "(\<exists>S'. realize_character dst0 S = Inr (True, S') \<and>
           edgelist (red_black S')
             = filter (\<lambda>e. \<not> incident (char_vertex S (realize S)) e) (edgelist (red_black S))
               @ map (Pair (char_vertex S (realize S))) D \<and>
           colors S' ! unat (realize S) = RED \<and>
           operation S' = 1 \<and>
           current_states S' ! unat (realize S)
             = (if characters S ! unat (realize S) \<noteq> 0 \<and> D = [] then - 1 else 1)) \<and>
         set D = {u. u < unat (num_species_orig S) \<and> u \<noteq> char_vertex S (realize S) \<and>
                     (char_vertex S (realize S), u) \<in> (adjacent (red_black S))\<^sup>* \<and>
                     (char_vertex S (realize S), u) \<notin> adjacent (red_black S)}"
proof
  have "unat (realize S) < length (colors S)"
    using assms(1,2) by (simp add: state_ok_def well_formed_def)
  then show "\<exists>S'. realize_character dst0 S = Inr (True, S') \<and>
           edgelist (red_black S')
             = filter (\<lambda>e. \<not> incident (char_vertex S (realize S)) e) (edgelist (red_black S))
               @ map (Pair (char_vertex S (realize S))) D \<and>
           colors S' ! unat (realize S) = RED \<and>
           operation S' = 1 \<and>
           current_states S' ! unat (realize S)
             = (if characters S ! unat (realize S) \<noteq> 0 \<and> D = [] then - 1 else 1)"
    using realize_black_accept [OF assms, of dst0]
    by (auto simp: without_incident_def)
  show "set D = {u. u < unat (num_species_orig S) \<and> u \<noteq> char_vertex S (realize S) \<and>
                     (char_vertex S (realize S), u) \<in> (adjacent (red_black S))\<^sup>* \<and>
                     (char_vertex S (realize S), u) \<notin> adjacent (red_black S)}"
    by (rule not_adjacent_species_meaning [OF assms(5)])
qed

text \<open>The witness: character 1 of the worked instance, with \<open>D = [0]\<close>.\<close>

theorem realize_black_accepts_witness:
  "state_ok (chain_start\<lparr>realize := 1\<rparr>) \<and>
   colors (chain_start\<lparr>realize := 1\<rparr>) ! 1 = BLACK \<and>
   not_adjacent_species (red_black chain_start) 3 4 = Inr [0] \<and>
   (\<exists>S'. realize_character new_state (chain_start\<lparr>realize := 1\<rparr>) = Inr (True, S') \<and>
      edgelist (red_black S') = [(0, 3), (1, 3), (4, 0)] \<and>
      colors S' ! 1 = RED \<and> operation S' = 1 \<and> current_states S' ! 1 = 1)"
proof -
  let ?S = "chain_start\<lparr>realize := 1\<rparr>"
  have ok: "state_ok ?S" using chain_ok(1) by simp
  have r: "unat (realize ?S) < unat (num_characters_orig ?S)" by (simp add: chain_start_def)
  have black: "colors ?S ! unat (realize ?S) = BLACK" by (simp add: chain_start_def)
  have cur: "current_states ?S ! unat (realize ?S) \<noteq> - 1" by (simp add: chain_start_def)
  have v: "char_vertex ?S (realize ?S) = 4" "unat (num_species_orig ?S) = 3"
    by (simp_all add: chain_start_def char_vertex_def)
  have D: "not_adjacent_species (red_black ?S) (unat (num_species_orig ?S))
             (char_vertex ?S (realize ?S)) = Inr [0]"
    unfolding v by code_simp
  have es: "filter (\<lambda>e. \<not> incident 4 e) (edgelist (red_black chain_start)) @ map (Pair 4) [0]
              = [(0, 3), (1, 3), (4, 0)]"
    by (simp add: chain_start_def incident_def)
  have "colors ?S ! 1 = BLACK" using black by (simp add: chain_start_def)
  moreover have "not_adjacent_species (red_black chain_start) 3 4 = Inr [0]"
    using D v by simp
  ultimately show ?thesis
    using realize_black_accepts [OF ok r black cur D, of new_state, THEN conjunct1] ok v es
    by simp
qed

text \<open>
  The claim as stated fails on \<^verbatim>\<open>2 2 / 1 0 / 0 1\<close>: character 0 is BLACK, its realization is
  accepted with \<open>operation = 1\<close>, and \<open>current_states[0]\<close> of the child is \<open>-1\<close>, not 1.
  It also fails on a BLACK character that a cleanup has already removed: on
  \<^verbatim>\<open>2 2 / 1 0 / 0 0\<close> the cleanup deletes character 1, which stays BLACK, and its realization
  fails an assertion instead of accepting.
\<close>

theorem realize_black_accepts_counterexample:
  "bind_res (load_instance [2, 2, 1, 0, 0, 1]) (\<lambda>s0.
     Inr (colors s0 ! 0,
          map_sum id (\<lambda>(accepted, s1). (accepted, operation s1, current_states s1 ! 0))
            (realize_in 0 s0)))
     = Inr (BLACK, Inr (True, 1, - 1)) \<and>
   bind_res (load_instance [2, 2, 1, 0, 0, 0]) (\<lambda>s0. bind_res (cleanup s0) (\<lambda>s1.
     Inr (colors s1 ! 1, current_states s1 ! 1, map_sum id fst (realize_in 1 s1))))
     = Inr (BLACK, - 1, Inl AssertionFailed)"
  by code_simp

section \<open>Realizing a free RED character\<close>

text \<open>
  C4, as the code has it.  Let \<open>c = realize S\<close> be a RED character of a consistent state \<open>S\<close>
  that is still marked active, and let every species of its component be adjacent to its
  vertex (\<open>D\<close> empty).  Then the realization is accepted with removal: the edges at \<open>c\<close>'s
  vertex are deleted and none is added, \<open>colors[c]\<close> is \<open>RED + 1\<close>, \<open>current_states[c]\<close> is
  \<open>-1\<close>, \<open>characters[c]\<close> is 0 and \<open>operation\<close> is 2; \<open>num_characters\<close> goes down by 1 for \<open>c\<close>
  and by 1 more for every other null character the final Cleanup finds.  On
  \<^verbatim>\<open>2 2 / 1 0 / 1 1\<close> the first realization of character 0 yields \<open>operation = 1\<close> and its
  Cleanup marks character 0 inactive, so the second realization fails the assertion of
  \<^verbatim>\<open>delete_character\<close>.
\<close>

theorem realize_free_red_removes:
  assumes "state_ok S"
    and "unat (realize S) < unat (num_characters_orig S)"
    and "colors S ! unat (realize S) = RED"
    and "characters S ! unat (realize S) \<noteq> 0"
    and "not_adjacent_species (red_black S) (unat (num_species_orig S))
           (char_vertex S (realize S)) = Inr []"
  shows "(\<exists>S'. realize_character dst0 S = Inr (True, S') \<and>
            red_black S' = without_incident (red_black S) (char_vertex S (realize S)) \<and>
            colors S' ! unat (realize S) = REMOVED \<and>
            current_states S' ! unat (realize S) = - 1 \<and>
            characters S' ! unat (realize S) = 0 \<and>
            operation S' = 2 \<and>
            num_characters S'
              = num_characters S - 1
                - of_nat (length (filter
                    (null_character
                       (S\<lparr>red_black := without_incident (red_black S) (char_vertex S (realize S)),
                          characters := (characters S)[unat (realize S) := 0]\<rparr>))
                    [0..<unat (num_characters_orig S)]))) \<and>
         bind_res (load_instance [2, 2, 1, 0, 1, 1]) (\<lambda>s0.
         bind_res (realize_in 0 s0) (\<lambda>(accepted, s1).
           Inr (accepted, operation s1, characters s1 ! 0, realize_in 0 s1)))
           = Inr (True, 1, 0, Inl AssertionFailed) \<and>
         (\<forall>u. u < unat (num_species_orig S) \<and>
              (char_vertex S (realize S), u) \<in> (adjacent (red_black S))\<^sup>* \<longrightarrow>
              (char_vertex S (realize S), u) \<in> adjacent (red_black S))"
proof (intro conjI)
  have "unat (realize S) < length (colors S)"
    using assms(1,2) by (simp add: state_ok_def well_formed_def)
  then show "\<exists>S'. realize_character dst0 S = Inr (True, S') \<and>
            red_black S' = without_incident (red_black S) (char_vertex S (realize S)) \<and>
            colors S' ! unat (realize S) = REMOVED \<and>
            current_states S' ! unat (realize S) = - 1 \<and>
            characters S' ! unat (realize S) = 0 \<and>
            operation S' = 2 \<and>
            num_characters S'
              = num_characters S - 1
                - of_nat (length (filter
                    (null_character
                       (S\<lparr>red_black := without_incident (red_black S) (char_vertex S (realize S)),
                          characters := (characters S)[unat (realize S) := 0]\<rparr>))
                    [0..<unat (num_characters_orig S)]))"
    using realize_red_remove [OF assms, of dst0] by auto
  show "bind_res (load_instance [2, 2, 1, 0, 1, 1]) (\<lambda>s0.
         bind_res (realize_in 0 s0) (\<lambda>(accepted, s1).
           Inr (accepted, operation s1, characters s1 ! 0, realize_in 0 s1)))
           = Inr (True, 1, 0, Inl AssertionFailed)"
    by code_simp
  have "char_vertex S (realize S) \<ge> unat (num_species_orig S)"
    using assms(1,2) char_vertex_wf [of S "unat (realize S)"]
    by (simp add: state_ok_def)
  then show "\<forall>u. u < unat (num_species_orig S) \<and>
              (char_vertex S (realize S), u) \<in> (adjacent (red_black S))\<^sup>* \<longrightarrow>
              (char_vertex S (realize S), u) \<in> adjacent (red_black S)"
    using not_adjacent_species_meaning [OF assms(5)] by auto
qed

text \<open>
  The witness: character 1 of the worked instance after both realizations; \<open>num_characters\<close>
  goes from 1 to 0.
\<close>

theorem realize_free_red_removes_witness:
  "state_ok (chain_free\<lparr>realize := 1\<rparr>) \<and>
   colors chain_free ! 1 = RED \<and> characters chain_free ! 1 \<noteq> 0 \<and>
   not_adjacent_species (red_black chain_free) 3 4 = Inr [] \<and>
   num_characters chain_free = 1 \<and>
   (\<exists>S'. realize_character new_state (chain_free\<lparr>realize := 1\<rparr>) = Inr (True, S') \<and>
      edgelist (red_black S') = [] \<and> colors S' ! 1 = REMOVED \<and>
      current_states S' ! 1 = - 1 \<and> characters S' ! 1 = 0 \<and> operation S' = 2 \<and>
      num_characters S' = 0)"
proof -
  let ?S = "chain_free\<lparr>realize := 1\<rparr>"
  have ok: "state_ok ?S" using chain_ok(3) by simp
  have r: "unat (realize ?S) < unat (num_characters_orig ?S)" by (simp add: chain_free_def)
  have red: "colors ?S ! unat (realize ?S) = RED" by (simp add: chain_free_def)
  have act: "characters ?S ! unat (realize ?S) \<noteq> 0" by (simp add: chain_free_def)
  have v: "char_vertex ?S (realize ?S) = 4" "unat (num_species_orig ?S) = 3"
    by (simp_all add: chain_free_def char_vertex_def)
  have D: "not_adjacent_species (red_black ?S) (unat (num_species_orig ?S))
             (char_vertex ?S (realize ?S)) = Inr []"
    unfolding v by code_simp
  have rb: "edgelist (without_incident (red_black chain_free) 4) = []"
    by (simp add: chain_free_def without_incident_def incident_def)
  have v1: "char_vertex (chain_free\<lparr>realize := 1\<rparr>) 1 = 4"
    using v(1) by simp
  have nulls: "filter (null_character
                 (chain_free\<lparr>realize := 1,
                             red_black := without_incident (red_black chain_free) 4,
                             characters := (characters chain_free)[Suc 0 := 0]\<rparr>))
                 [0..<unat (num_characters_orig chain_free)] = []"
    by code_simp
  have facts: "colors chain_free ! 1 = RED" "characters chain_free ! 1 \<noteq> 0"
    "num_characters chain_free = 1" "realize ?S = 1" "unat (1 :: u32) = 1"
    by (simp_all add: chain_free_def)
  have D': "not_adjacent_species (red_black chain_free) 3 4 = Inr []"
    using D v by simp
  show ?thesis
    using realize_free_red_removes [OF ok r red act D, of new_state, THEN conjunct1]
      ok D' facts(1-3)
    by (auto simp: v1 rb nulls facts)
qed

text \<open>
  The claim as stated fails on its own example: after the first realization character 0 of
  \<^verbatim>\<open>2 2 / 1 0 / 1 1\<close> is RED with an empty \<open>D\<close>, and realizing it again is an assertion failure.
\<close>

theorem realize_free_red_removes_counterexample:
  "bind_res (load_instance [2, 2, 1, 0, 1, 1]) (\<lambda>s0.
   bind_res (realize_in 0 s0) (\<lambda>(accepted, s1).
     Inr (accepted, operation s1, colors s1 ! 0,
          not_adjacent_vertices (red_black s1) (char_vertex s1 0),
          map_sum id (\<lambda>(accepted, s2). operation s2) (realize_in 0 s1))))
     = Inr (True, 1, RED, Inr [], Inl AssertionFailed)"
  by code_simp

section \<open>The graphs of a loaded instance\<close>

text \<open>
  C5, as the code has it.  For an instance file with header \<open>n m\<close> followed by \<open>n * m\<close> cells,
  each 0 or 1 (and sizes that fit the 32-bit indices), in which white space or further
  numbers follow the last cell, the loader returns true and builds the red-black graph on
  \<open>n + m\<close> vertices whose edges are exactly the pairs \<open>(s, n + c)\<close> with \<open>matrix[s][c] = 1\<close>,
  and the conflict graph on \<open>m\<close> vertices whose edges are exactly the pairs \<open>(c1, c2)\<close>,
  \<open>c1 < c2\<close>, on which all four states occur.  On
  \<^verbatim>\<open>3 3 / 1 1 0 / 1 0 1 / 0 1 1\<close> the conflict graph has no edge: three rows show at most
  three of the four states.
\<close>

theorem loader_builds_graphs:
  fixes dst :: state_s and n m :: u32 and cells rest :: "u32 list"
  assumes len: "length cells = unat n * unat m"
    and bin: "list_all (\<lambda>w. w = 0 \<or> w = 1) cells"
    and nm: "unat n * unat m < 2 ^ 32"
    and vs: "unat n + unat m < 2 ^ 32 - 1"
    and fin: "sp \<or> rest \<noteq> []"
  shows "(\<exists>global_props stp.
            read_instance_from_filename
              ((instance_file (n # m # cells @ rest))\<lparr>final_space := sp\<rparr>) dst
              = Inr (True, global_props, stp) \<and>
            matrix stp = Some cells \<and>
            vcount (red_black stp) = unat n + unat m \<and>
            vcount (conflict stp) = unat m \<and>
            set (edgelist (red_black stp))
              = {(s, unat n + c) | s c. s < unat n \<and> c < unat m \<and> cells ! (s * unat m + c) = 1} \<and>
            set (edgelist (conflict stp))
              = {(c1, c2) | c1 c2. c1 < c2 \<and> c2 < unat m \<and>
                   all_four_states cells (unat n) (unat m) c1 c2}) \<and>
         map_sum id (\<lambda>stp. edgelist (conflict stp))
           (load_instance [3, 3, 1, 1, 0, 1, 0, 1, 0, 1, 1]) = Inr []"
proof
  define stp3 where "stp3 = (init_state dst n m)\<lparr>num_species := n, num_characters := m,
                                           matrix := Some cells\<rparr>"
  have n3: "num_species stp3 = n" "num_characters stp3 = m" "matrix stp3 = Some cells"
    by (simp_all add: stp3_def)
  have val: "matrix_get_value stp3 s c = cells ! (s * unat m + c)"
    if "s < unat n" "c < unat m" for s c
    using that nm by (simp add: matrix_get_value_def matrix_index_flat n3 add.commute mult.commute)
  have binary: "cells ! (s * unat m + c) = 0 \<or> cells ! (s * unat m + c) = 1"
    if "s < unat n" "c < unat m" for s c
  proof -
    have "s * unat m + c < length cells"
      using flat_index_bound [OF that] len by (simp add: add.commute mult.commute)
    then show ?thesis using bin by (simp add: list_all_length)
  qed
  have "unat (of_nat c + n :: u32) = unat n + c" if "c < unat m" for c
  proof -
    have "unat (of_nat c :: u32) = c" using that by (intro le_unat_uoi [of _ m]) simp
    moreover have "c + unat n < 2 ^ LENGTH(32)" using that vs by simp
    ultimately show ?thesis by (simp add: unat_add_lem [THEN iffD1])
  qed
  note vertex = this
  let ?CI = "cell_indices (unat n) (unat m)"
  have f: "filter (\<lambda>(s, c). matrix_get_value stp3 s c = 1) ?CI
             = filter (\<lambda>(s, c). cells ! (s * unat m + c) = 1) ?CI"
    by (rule filter_cong [OF refl]) (auto simp: set_cell_indices val)
  have g: "map (\<lambda>(s, c). (s, unat (of_nat c + n :: u32)))
               (filter (\<lambda>(s, c). cells ! (s * unat m + c) = 1) ?CI)
             = map (\<lambda>(s, c). (s, unat n + c))
                 (filter (\<lambda>(s, c). cells ! (s * unat m + c) = 1) ?CI)"
    by (rule map_cong [OF refl]) (auto simp: set_cell_indices vertex)
  have rbe: "red_black_edges stp3
               = map (\<lambda>(s, c). (s, unat n + c))
                   (filter (\<lambda>(s, c). cells ! (s * unat m + c) = 1) ?CI)"
    unfolding red_black_edges_def n3 f g ..
  have rb: "set (red_black_edges stp3)
              = {(s, unat n + c) | s c. s < unat n \<and> c < unat m \<and> cells ! (s * unat m + c) = 1}"
    unfolding rbe by (force simp: set_cell_indices)
  have conf: "in_conflict stp3 c1 c2 \<longleftrightarrow> all_four_states cells (unat n) (unat m) c1 c2"
    if "c1 < unat m" "c2 < unat m" for c1 c2
  proof -
    have occ: "k \<in> (\<lambda>s. 2 * unat (matrix_get_value stp3 s c1) + unat (matrix_get_value stp3 s c2))
                    ` {0..<unat n}
               \<longleftrightarrow> (\<exists>s < unat n. 2 * unat (cells ! (s * unat m + c1))
                                    + unat (cells ! (s * unat m + c2)) = k)" for k
      using that by (auto simp: val image_iff) 
    have all4: "(\<forall>k < (4 :: nat). P k) \<longleftrightarrow> P 0 \<and> P (Suc 0) \<and> P 2 \<and> P 3" for P
    proof -
      have "k < 4 \<longleftrightarrow> k = 0 \<or> k = Suc 0 \<or> k = 2 \<or> k = 3" for k :: nat by auto
      then show ?thesis by auto
    qed
    note bp = binary_pair_code [OF binary [OF _ \<open>c1 < unat m\<close>] binary [OF _ \<open>c2 < unat m\<close>]]
    have p0: "(\<exists>s < unat n. 2 * unat (cells ! (s * unat m + c1))
                                    + unat (cells ! (s * unat m + c2)) = 0)
                \<longleftrightarrow> (\<exists>s < unat n. cells ! (s * unat m + c1) = 0 \<and> cells ! (s * unat m + c2) = 0)"
      by (rule ex_less_cong) (rule bp(1); assumption)
    have p1: "(\<exists>s < unat n. 2 * unat (cells ! (s * unat m + c1))
                                    + unat (cells ! (s * unat m + c2)) = Suc 0)
                \<longleftrightarrow> (\<exists>s < unat n. cells ! (s * unat m + c1) = 0 \<and> cells ! (s * unat m + c2) = 1)"
      by (rule ex_less_cong) (rule bp(2); assumption)
    have p2: "(\<exists>s < unat n. 2 * unat (cells ! (s * unat m + c1))
                                    + unat (cells ! (s * unat m + c2)) = 2)
                \<longleftrightarrow> (\<exists>s < unat n. cells ! (s * unat m + c1) = 1 \<and> cells ! (s * unat m + c2) = 0)"
      by (rule ex_less_cong) (rule bp(3); assumption)
    have p3: "(\<exists>s < unat n. 2 * unat (cells ! (s * unat m + c1))
                                    + unat (cells ! (s * unat m + c2)) = 3)
                \<longleftrightarrow> (\<exists>s < unat n. cells ! (s * unat m + c1) = 1 \<and> cells ! (s * unat m + c2) = 1)"
      by (rule ex_less_cong) (rule bp(4); assumption)
    have po: "pair_occurs cells (unat n) (unat m) c1 c2 a b
                \<longleftrightarrow> (\<exists>s < unat n. cells ! (s * unat m + c1) = a \<and> cells ! (s * unat m + c2) = b)"
      for a b
      by (auto simp: pair_occurs_def list_ex_iff)
    show ?thesis
      unfolding in_conflict_marks n3 occ all4 all_four_states_def po p0 p1 p2 p3 ..
  qed
  have cg: "set (conflict_edges stp3)
              = {(c1, c2) | c1 c2. c1 < c2 \<and> c2 < unat m \<and>
                   all_four_states cells (unat n) (unat m) c1 c2}"
  proof -
    have mem: "(c1, c2) \<in> set (conflict_edges stp3)
                 \<longleftrightarrow> c1 < c2 \<and> c2 < unat m \<and> in_conflict stp3 c1 c2" for c1 c2
      by (auto simp: conflict_edges_def n3 intro!: bexI [of _ c1])
    have "(c1, c2) \<in> set (conflict_edges stp3)
            \<longleftrightarrow> c1 < c2 \<and> c2 < unat m \<and> all_four_states cells (unat n) (unat m) c1 c2"
      for c1 c2
      unfolding mem using conf [of c1 c2] by auto
    then show ?thesis by auto
  qed
  show "\<exists>global_props stp.
            read_instance_from_filename
              ((instance_file (n # m # cells @ rest))\<lparr>final_space := sp\<rparr>) dst
              = Inr (True, global_props, stp) \<and>
            matrix stp = Some cells \<and>
            vcount (red_black stp) = unat n + unat m \<and>
            vcount (conflict stp) = unat m \<and>
            set (edgelist (red_black stp))
              = {(s, unat n + c) | s c. s < unat n \<and> c < unat m \<and> cells ! (s * unat m + c) = 1} \<and>
            set (edgelist (conflict stp))
              = {(c1, c2) | c1 c2. c1 < c2 \<and> c2 < unat m \<and>
                   all_four_states cells (unat n) (unat m) c1 c2}"
    using loader_result [OF len nm vs fin, where dst = dst] rb cg
    by (simp add: stp3_def)
  show "map_sum id (\<lambda>stp. edgelist (conflict stp))
          (load_instance [3, 3, 1, 1, 0, 1, 0, 1, 0, 1, 1]) = Inr []"
    by code_simp
qed

text \<open>
  The witness: \<^verbatim>\<open>4 2 / 0 0 / 0 1 / 1 0 / 1 1\<close> ending with a line break, whose two characters
  are in conflict.
\<close>

theorem loader_builds_graphs_witness:
  "length [0, 0, 0, 1, 1, 0, 1, 1 :: u32] = unat (4 :: u32) * unat (2 :: u32) \<and>
   list_all (\<lambda>w. w = 0 \<or> w = 1) [0, 0, 0, 1, 1, 0, 1, 1 :: u32] \<and>
   (\<exists>global_props stp.
      read_instance_from_filename
        ((instance_file (4 # 2 # [0, 0, 0, 1, 1, 0, 1, 1] @ []))\<lparr>final_space := True\<rparr>) new_state
        = Inr (True, global_props, stp) \<and>
      matrix stp = Some [0, 0, 0, 1, 1, 0, 1, 1] \<and>
      vcount (red_black stp) = unat (4 :: u32) + unat (2 :: u32) \<and>
      vcount (conflict stp) = unat (2 :: u32) \<and>
      set (edgelist (red_black stp))
        = {(s, unat (4 :: u32) + c) | s c. s < unat (4 :: u32) \<and> c < unat (2 :: u32) \<and>
             [0, 0, 0, 1, 1, 0, 1, 1 :: u32] ! (s * unat (2 :: u32) + c) = 1} \<and>
      set (edgelist (conflict stp))
        = {(c1, c2) | c1 c2. c1 < c2 \<and> c2 < unat (2 :: u32) \<and>
             all_four_states [0, 0, 0, 1, 1, 0, 1, 1] (unat (4 :: u32)) (unat (2 :: u32)) c1 c2}) \<and>
   map_sum id (\<lambda>stp. (edgelist (red_black stp), edgelist (conflict stp)))
     (load_instance [4, 2, 0, 0, 0, 1, 1, 0, 1, 1])
     = Inr ([(1, 5), (2, 4), (3, 4), (3, 5)], [(0, 1)])"
proof -
  have len: "length [0, 0, 0, 1, 1, 0, 1, 1 :: u32] = unat (4 :: u32) * unat (2 :: u32)"
    by simp
  have bin: "list_all (\<lambda>w. w = 0 \<or> w = 1) [0, 0, 0, 1, 1, 0, 1, 1 :: u32]"
    by simp
  have nm: "unat (4 :: u32) * unat (2 :: u32) < 2 ^ 32"
    and vs: "unat (4 :: u32) + unat (2 :: u32) < 2 ^ 32 - 1"
    by simp_all
  have run: "map_sum id (\<lambda>stp. (edgelist (red_black stp), edgelist (conflict stp)))
     (load_instance [4, 2, 0, 0, 0, 1, 1, 0, 1, 1])
     = Inr ([(1, 5), (2, 4), (3, 4), (3, 5)], [(0, 1)])"
    by code_simp
  have fin: "True \<or> ([] :: u32 list) \<noteq> []"
    by simp
  from loader_builds_graphs [OF len bin nm vs fin, where dst = new_state, THEN conjunct1]
    len bin run
  show ?thesis by blast
qed

text \<open>
  The claim's example fails: on \<^verbatim>\<open>3 3 / 1 1 0 / 1 0 1 / 0 1 1\<close> the loader adds no conflict
  edge, since the state \<open>(0, 0)\<close> occurs on no pair of columns.  The general statement fails
  on a file that ends right after its last cell: on \<^verbatim>\<open>2 2 / 1 0 / 0 1\<close> without a final line
  break the loader returns false, the last cell is not stored and no edge is added.
\<close>

theorem loader_builds_graphs_counterexample:
  "map_sum id (\<lambda>stp. edgelist (conflict stp))
     (load_instance [3, 3, 1, 1, 0, 1, 0, 1, 0, 1, 1]) = Inr [] \<and>
   \<not> pair_occurs [1, 1, 0, 1, 0, 1, 0, 1, 1] 3 3 0 1 0 0 \<and>
   \<not> pair_occurs [1, 1, 0, 1, 0, 1, 0, 1, 1] 3 3 0 2 0 0 \<and>
   \<not> pair_occurs [1, 1, 0, 1, 0, 1, 0, 1, 1] 3 3 1 2 0 0 \<and>
   map_sum id (\<lambda>(complete, global_props, stp).
       (complete, matrix stp, edgelist (red_black stp), edgelist (conflict stp)))
     (read_instance_from_filename
        ((instance_file [2, 2, 1, 0, 0, 1])\<lparr>final_space := False\<rparr>) new_state)
     = Inr (False, Some [1, 0, 0, 0], [], [])"
  by code_simp

section \<open>Dumping and loading a snapshot\<close>

text \<open>
  C6, as the code has it.  For every state \<open>S\<close> that passes \<^verbatim>\<open>check_state\<close> and whose arrays
  have their allocated sizes, \<^verbatim>\<open>write_state\<close> succeeds and \<^verbatim>\<open>read_state\<close> of the files it wrote
  gives a state equal to \<open>S\<close> on \<open>num_species_orig\<close>, \<open>num_characters_orig\<close>, \<open>num_species\<close>,
  \<open>num_characters\<close>, \<open>realize\<close>, \<open>current_states\<close>, \<open>species\<close>, \<open>characters\<close> and on both
  graphs.  The snapshot does not hold the colours or the operation, and the lists and the
  matrix are not read back: in the loaded state every colour is BLACK, \<open>operation\<close> is 0,
  both lists are empty and the matrix is what the destination struct held.
\<close>

theorem snapshot_round_trip:
  assumes chk: "check_state S = 0"
    and len: "length (species S) = unat (num_species_orig S)"
      "length (characters S) = unat (num_characters_orig S)"
      "length (current_states S) = unat (num_characters_orig S)"
  shows "\<exists>fs' S'. write_state filename S fs = Inr fs' \<and>
           read_state filename dst fs' = Inr S' \<and>
           num_species_orig S' = num_species_orig S \<and>
           num_characters_orig S' = num_characters_orig S \<and>
           num_species S' = num_species S \<and>
           num_characters S' = num_characters S \<and>
           realize S' = realize S \<and>
           current_states S' = current_states S \<and>
           species S' = species S \<and>
           characters S' = characters S \<and>
           red_black S' = red_black S \<and>
           conflict S' = conflict S \<and>
           colors S' = replicate (unat (num_characters_orig S)) BLACK \<and>
           operation S' = 0 \<and>
           tried_characters S' = [] \<and> character_queue S' = [] \<and>
           matrix S' = matrix dst"
proof -
  let ?rb = "filename @ ''-redblack.graphml''" and ?cg = "filename @ ''-conflict.graphml''"
  obtain data where data: "build_json_state S ?rb ?cg = Inr data"
    using build_json_state_checked [OF chk] by blast
  note f = build_json_state_fields [OF data]
  define fs' where "fs' = fs(?rb := Some (Graphml_file (red_black S)),
                            ?cg := Some (Graphml_file (conflict S)),
                            filename := Some (Json_file data))"
  have w: "write_state filename S fs = Inr fs'"
    by (simp add: write_state_def Let_def chk data fs'_def)
  have files: "fs' filename = Some (Json_file data)"
    "read_graphml fs' ?rb = Inr (red_black S)" "read_graphml fs' ?cg = Inr (conflict S)"
    by (simp_all add: fs'_def read_graphml_def)
  define S' where "S' = (init_state dst (num_species_orig S) (num_characters_orig S))
                          \<lparr>realize := realize S, tried_characters := [], character_queue := [],
                           num_species := num_species S, num_characters := num_characters S,
                           current_states := current_states S, species := species S,
                           characters := characters S, red_black := red_black S,
                           conflict := conflict S\<rparr>"
  have "check_state S' = check_state S"
    by (simp add: S'_def check_state_def init_state_def)
  then have chk': "check_state S' = 0" using chk by simp
  have r: "read_state filename dst fs' = Inr S'"
    unfolding read_state_def
    using chk'
    by (simp add: files f json_get_integer_def json_get_array_def json_get_string_def
          json_get_list_def array2json_array_def array_round_trip len Let_def S'_def)
  show ?thesis
    using w r by (intro exI [of _ fs'] exI [of _ S']) (simp add: S'_def init_state_def)
qed

text \<open>The witness: the worked instance after character 1 has been realized.\<close>

theorem snapshot_round_trip_witness:
  "check_state chain_red = 0 \<and>
   length (species chain_red) = unat (num_species_orig chain_red) \<and>
   length (characters chain_red) = unat (num_characters_orig chain_red) \<and>
   length (current_states chain_red) = unat (num_characters_orig chain_red) \<and>
   (\<exists>fs' S'. write_state ''node'' chain_red no_files = Inr fs' \<and>
      read_state ''node'' new_state fs' = Inr S' \<and>
      num_species_orig S' = num_species_orig chain_red \<and>
      num_characters_orig S' = num_characters_orig chain_red \<and>
      num_species S' = num_species chain_red \<and>
      num_characters S' = num_characters chain_red \<and>
      realize S' = realize chain_red \<and>
      current_states S' = current_states chain_red \<and>
      species S' = species chain_red \<and>
      characters S' = characters chain_red \<and>
      red_black S' = red_black chain_red \<and>
      conflict S' = conflict chain_red \<and>
      colors S' = replicate (unat (num_characters_orig chain_red)) BLACK \<and>
      operation S' = 0 \<and>
      tried_characters S' = [] \<and> character_queue S' = [] \<and>
      matrix S' = matrix new_state)"
proof -
  have len: "length (species chain_red) = unat (num_species_orig chain_red)"
    "length (characters chain_red) = unat (num_characters_orig chain_red)"
    "length (current_states chain_red) = unat (num_characters_orig chain_red)"
    by (simp_all add: chain_red_def)
  from snapshot_round_trip [OF chain_checked(2) len, of "''node''" no_files new_state]
    chain_checked(2) len
  show ?thesis by blast
qed

text \<open>
  The claim as stated fails on the same state: character 1 is RED before the dump and
  BLACK after the load, \<open>operation\<close> goes from 1 to 0, and the matrix is lost.
\<close>

theorem snapshot_round_trip_counterexample:
  "bind_res (write_state ''node'' chain_red no_files) (\<lambda>fs'.
   bind_res (read_state ''node'' new_state fs') (\<lambda>S'.
     Inr (colors S', operation S', matrix S')))
     = Inr ([BLACK, BLACK], 0, None) \<and>
   colors chain_red = [BLACK, RED] \<and> operation chain_red = 1 \<and>
   matrix chain_red = Some [1, 0, 1, 1, 0, 1] \<and> BLACK \<noteq> RED"
  by code_simp

section \<open>What the driver prints on success\<close>

text \<open>
  C7 does not hold of the code.  The loop that prints the solution runs \<open>i\<close> from 0 to the
  level, but reads \<^verbatim>\<open>(states + level)->realized_char\<close> each time: it prints the move that
  produced the last level once per level.  On \<^verbatim>\<open>2 2 / 1 0 / 0 1\<close> with the characters tried in
  index order the search lands on level 2 with no species left; the states of levels 0, 1
  and 2 hold the characters 0, 0 and 1, and the three lines printed all show character 1.
\<close>

theorem solution_repeats_last_move:
  "bind_res (load_instance [2, 2, 1, 0, 0, 1]) (\<lambda>s0.
     Inr (exhaustive_search 3 [s0, new_state, new_state] natural_order))
     = Inr (Some (Inr (Solution_found [(0, 1), (1, 1), (2, 1)]))) \<and>
   bind_res (load_instance [2, 2, 1, 0, 0, 1]) (\<lambda>s0.
     case next_node [s0, new_state, new_state] 0 natural_order of
       Inr (states1, level1) \<Rightarrow>
         (case next_node states1 level1 natural_order of
            Inr (states2, level2) \<Rightarrow>
              Inr (level1, level2, map realize states2, num_species (states2 ! 2))))
     = Inr (1, 2, [0, 0, 1], 0)"
  by code_simp


section \<open>Cleanup is idempotent\<close>

text \<open>
  C8.  On a state whose \<open>species\<close> and \<open>characters\<close> arrays have their allocated sizes,
  running \<^verbatim>\<open>cleanup\<close> on the result of \<^verbatim>\<open>cleanup\<close> gives that result again (and a cleanup that
  aborts, aborts).  Consequently, when the input snapshot loads as a consistent state \<open>S\<close>,
  replay mode with an empty list of characters succeeds and produces exactly \<open>cleanup S\<close>:
  the snapshot it writes loads as the state \<^verbatim>\<open>cleanup\<close> returns on \<open>S\<close>, no file other than
  the three of the output snapshot changes, and replaying the output over itself leaves
  every file as it is.  On any input, replay with an empty list aborts exactly when
  reading the snapshot, the cleanup or writing the result aborts.
\<close>

theorem cleanup_idempotent:
  assumes "length (species S) = unat (num_species_orig S)"
    and "length (characters S) = unat (num_characters_orig S)"
  shows "bind_res (cleanup S) cleanup = cleanup S \<and>
         (read_state in_name new_state fs = Inr S \<and> state_ok S \<longrightarrow>
            (\<exists>S' fs'. cleanup S = Inr S' \<and>
               replay in_name [] out_name fs = Inr fs' \<and>
               read_state out_name new_state fs' = Inr S' \<and>
               (\<forall>name. name \<noteq> out_name \<and> name \<noteq> out_name @ ''-redblack.graphml'' \<and>
                        name \<noteq> out_name @ ''-conflict.graphml'' \<longrightarrow> fs' name = fs name) \<and>
               replay out_name [] out_name fs' = Inr fs')) \<and>
         replay in_name [] out_name fs
           = bind_res (read_state in_name new_state fs) (\<lambda>st.
             bind_res (cleanup st) (\<lambda>st1. write_state out_name st1 fs))"
proof (intro conjI impI)
  show "bind_res (cleanup S) cleanup = cleanup S"
    using assms cleanup_settles [of S] by (cases "cleanup S") simp_all
next
  assume "read_state in_name new_state fs = Inr S \<and> state_ok S"
  then have rd: "read_state in_name new_state fs = Inr S" and ok: "state_ok S"
    by simp_all
  show "\<exists>S' fs'. cleanup S = Inr S' \<and>
          replay in_name [] out_name fs = Inr fs' \<and>
          read_state out_name new_state fs' = Inr S' \<and>
          (\<forall>name. name \<noteq> out_name \<and> name \<noteq> out_name @ ''-redblack.graphml'' \<and>
                   name \<noteq> out_name @ ''-conflict.graphml'' \<longrightarrow> fs' name = fs name) \<and>
          replay out_name [] out_name fs' = Inr fs'"
    by (rule replay_empty_list [OF rd ok])
next
  show "replay in_name [] out_name fs
           = bind_res (read_state in_name new_state fs) (\<lambda>st.
             bind_res (cleanup st) (\<lambda>st1. write_state out_name st1 fs))"
  proof (cases "read_state in_name new_state fs")
    case (Inl e)
    then show ?thesis by (simp add: replay_def)
  next
    case (Inr st)
    note chk = read_state_checked [OF Inr]
    show ?thesis
    proof (cases "cleanup st")
      case (Inl e)
      then show ?thesis using Inr chk by (simp add: replay_def)
    next
      case st1: (Inr st1)
      show ?thesis
        using Inr chk st1 write_state_unchecked [of st1 out_name fs]
        by (cases "check_state st1 = 0") (simp_all add: replay_def)
    qed
  qed
qed

text \<open>
  The witness: the snapshot \<^verbatim>\<open>in\<close> of \<^verbatim>\<open>2 2 / 1 0 / 0 0\<close>.  Cleanup deletes species 1 and
  character 1, and replay writes a snapshot \<^verbatim>\<open>out\<close> that loads as the cleaned state.
\<close>

theorem cleanup_idempotent_witness:
  "length (species sparse_read) = unat (num_species_orig sparse_read) \<and>
   length (characters sparse_read) = unat (num_characters_orig sparse_read) \<and>
   read_state ''in'' new_state sparse_snapshot = Inr sparse_read \<and>
   state_ok sparse_read \<and>
   cleanup sparse_read = Inr sparse_clean \<and>
   species sparse_clean = [1, 0] \<and> characters sparse_clean = [1, 0] \<and>
   bind_res (cleanup sparse_read) cleanup = cleanup sparse_read \<and>
   (\<exists>fs'. replay ''in'' [] ''out'' sparse_snapshot = Inr fs' \<and>
      read_state ''out'' new_state fs' = Inr sparse_clean \<and>
      fs' ''in'' = sparse_snapshot ''in'' \<and>
      replay ''out'' [] ''out'' fs' = Inr fs') \<and>
   replay ''missing'' [] ''out'' sparse_snapshot = Inl AssertionFailed"
proof -
  have l1: "length (species sparse_read) = unat (num_species_orig sparse_read)"
    and l2: "length (characters sparse_read) = unat (num_characters_orig sparse_read)"
    by (simp_all add: sparse_read_def sparse_state_def)
  have sc: "species sparse_clean = [1, 0]" "characters sparse_clean = [1, 0]"
    by (simp_all add: sparse_clean_def)
  note run = cleanup_idempotent [OF l1 l2, of "''in''" sparse_snapshot "''out''"]
  from run have idem: "bind_res (cleanup sparse_read) cleanup = cleanup sparse_read"
    by (rule conjunct1)
  from run [THEN conjunct2, THEN conjunct1] sparse_snapshot_read sparse_read_ok
  obtain S' fs' where
    r: "cleanup sparse_read = Inr S'"
      "replay ''in'' [] ''out'' sparse_snapshot = Inr fs'"
      "read_state ''out'' new_state fs' = Inr S'"
      "\<forall>name. name \<noteq> ''out'' \<and> name \<noteq> ''out'' @ ''-redblack.graphml'' \<and>
              name \<noteq> ''out'' @ ''-conflict.graphml'' \<longrightarrow> fs' name = sparse_snapshot name"
      "replay ''out'' [] ''out'' fs' = Inr fs'"
    by blast
  have S': "S' = sparse_clean" using r(1) sparse_read_clean by simp
  have "fs' ''in'' = sparse_snapshot ''in''" using r(4) by simp
  moreover have "replay ''missing'' [] ''out'' sparse_snapshot = Inl AssertionFailed"
    by (simp add: replay_def read_state_def sparse_snapshot_def no_files_def)
  ultimately
  have "fs' ''in'' = sparse_snapshot ''in'' \<and>
        replay ''missing'' [] ''out'' sparse_snapshot = Inl AssertionFailed" ..
  with l1 l2 sparse_snapshot_read sparse_read_ok sparse_read_clean sc idem r(2,3,5) S'
  show ?thesis by blast
qed
section \<open>Deleting needs an active target\<close>

text \<open>
  C10.  \<^verbatim>\<open>delete_species\<close> succeeds only on an index whose \<open>species\<close> cell is positive and
  \<^verbatim>\<open>delete_character\<close> only on one whose \<open>characters\<close> cell is positive and whose current
  state is not \<open>-1\<close>; after a successful deletion the same deletion fails its assertion.
  Realizing a RED character with an empty \<open>D\<close> (the removal, \<open>operation = 2\<close>) when the
  character is already inactive or removed is an assertion failure, not a rejection.
\<close>

theorem delete_requires_active:
  "(delete_species stp s = Inr stp' \<longrightarrow>
      s < unat (num_species_orig stp) \<and> species stp ! s > 0 \<and>
      (s < length (species stp) \<longrightarrow> delete_species stp' s = Inl AssertionFailed)) \<and>
   (delete_character stq c = Inr stq' \<longrightarrow>
      c < unat (num_characters_orig stq) \<and> characters stq ! c > 0 \<and>
      current_states stq ! c \<noteq> - 1 \<and>
      (c < length (characters stq) \<longrightarrow> delete_character stq' c = Inl AssertionFailed)) \<and>
   (well_formed S \<and> check_state S = 0 \<and> colors S ! unat (realize S) = RED \<and>
    not_adjacent_species (red_black S) (unat (num_species_orig S))
      (char_vertex S (realize S)) = Inr [] \<and>
    (characters S ! unat (realize S) = 0 \<or> current_states S ! unat (realize S) = - 1) \<longrightarrow>
      realize_character dst0 S = Inl AssertionFailed)"
proof (intro conjI impI)
  assume "well_formed S \<and> check_state S = 0 \<and> colors S ! unat (realize S) = RED \<and>
    not_adjacent_species (red_black S) (unat (num_species_orig S))
      (char_vertex S (realize S)) = Inr [] \<and>
    (characters S ! unat (realize S) = 0 \<or> current_states S ! unat (realize S) = - 1)"
  then show "realize_character dst0 S = Inl AssertionFailed"
    by (intro realize_red_inactive) simp_all
qed (auto simp: delete_species_def delete_character_def split: if_splits)

text \<open>
  The witness: species 1 and character 1 of \<^verbatim>\<open>2 2 / 1 0 / 0 0\<close>, and character 0 of
  \<^verbatim>\<open>2 2 / 1 0 / 1 1\<close>, which the Cleanup of its first realization has removed.
\<close>

theorem delete_requires_active_witness:
  "delete_species sparse_state 1
     = Inr (sparse_state\<lparr>species := [1, 0], num_species := 1\<rparr>) \<and>
   species sparse_state ! 1 > 0 \<and>
   delete_species (sparse_state\<lparr>species := [1, 0], num_species := 1\<rparr>) 1 = Inl AssertionFailed \<and>
   delete_character sparse_state 1
     = Inr (sparse_state\<lparr>characters := [1, 0], current_states := [0, - 1],
                          num_characters := 1\<rparr>) \<and>
   characters sparse_state ! 1 > 0 \<and> current_states sparse_state ! 1 \<noteq> - 1 \<and>
   delete_character (sparse_state\<lparr>characters := [1, 0], current_states := [0, - 1],
                                  num_characters := 1\<rparr>) 1 = Inl AssertionFailed \<and>
   colors spent_state ! unat (realize spent_state) = RED \<and>
   characters spent_state ! unat (realize spent_state) = 0 \<and>
   realize_character new_state spent_state = Inl AssertionFailed"
proof -
  have ds: "delete_species sparse_state 1
              = Inr (sparse_state\<lparr>species := [1, 0], num_species := 1\<rparr>)"
    by (simp add: delete_species_def sparse_state_def)
  have dc: "delete_character sparse_state 1
              = Inr (sparse_state\<lparr>characters := [1, 0], current_states := [0, - 1],
                          num_characters := 1\<rparr>)"
    by (simp add: delete_character_def sparse_state_def)
  have len: "1 < length (species sparse_state)" "1 < length (characters sparse_state)"
    by (simp_all add: sparse_state_def)
  have wf: "well_formed spent_state" by (simp add: well_formed_def spent_state_def)
  have chk: "check_state spent_state = 0" by code_simp
  have red: "colors spent_state ! unat (realize spent_state) = RED"
    and gone: "characters spent_state ! unat (realize spent_state) = 0"
    by (simp_all add: spent_state_def)
  have D: "not_adjacent_species (red_black spent_state) (unat (num_species_orig spent_state))
             (char_vertex spent_state (realize spent_state)) = Inr []"
    by code_simp
  show ?thesis
    using delete_requires_active [of sparse_state 1 "sparse_state\<lparr>species := [1, 0], num_species := 1\<rparr>"
        sparse_state 1 "sparse_state\<lparr>characters := [1, 0], current_states := [0, - 1],
                          num_characters := 1\<rparr>" spent_state new_state]
      ds dc len wf chk red gone D
    by simp
qed

section \<open>The lists of a snapshot are not read back\<close>

text \<open>
  C9.  \<^verbatim>\<open>json_get_list\<close> in optional mode returns the null list whatever the document holds,
  and \<^verbatim>\<open>read_state\<close> reads both lists in optional mode: every state it produces has an empty
  \<open>tried_characters\<close> and an empty \<open>character_queue\<close>.
\<close>

theorem read_state_drops_lists:
  "json_get_list data field True = Inr [] \<and>
   (read_state filename stp fs = Inr st \<longrightarrow>
      tried_characters st = [] \<and> character_queue st = [])"
  by (auto simp: read_state_def json_get_list_def bind_res_eq_Inr Let_def
           split: option.splits file_content.splits)

theorem read_state_drops_lists_witness:
  "\<exists>st. read_state ''node'' new_state queued_snapshot = Inr st \<and>
        json_object_get (case queued_snapshot ''node'' of Some (Json_file data) \<Rightarrow> data)
          ''tried_characters'' = Some (JArray [JInteger 5, JInteger 7]) \<and>
        tried_characters st = [] \<and> character_queue st = []"
proof -
  have "case read_state ''node'' new_state queued_snapshot of Inr st \<Rightarrow> True | Inl e \<Rightarrow> False"
    by code_simp
  then obtain st where st: "read_state ''node'' new_state queued_snapshot = Inr st"
    by (cases "read_state ''node'' new_state queued_snapshot") simp_all
  have "json_object_get (case queued_snapshot ''node'' of Some (Json_file data) \<Rightarrow> data)
          ''tried_characters'' = Some (JArray [JInteger 5, JInteger 7])"
    by (simp add: queued_snapshot_def json_object_get_def)
  with st read_state_drops_lists [of "JObject []" "''character_queue''" "''node''" new_state
            queued_snapshot st]
  show ?thesis by blast
qed


end
